theory Spec2Isabelle
  imports Main "HOL-Library.Sublist"
begin

section \<open>The update manager (update-manager.c) and its collaborators\<close>

text \<open>
  The program is a single C file: eight thin wrappers around libostree calls and a
  \<open>main\<close> that runs them in sequence, leaving through the \<open>cleanup\<close> label on the
  first failure. libostree and GLib are not part of the repository, so the library is a
  parameter of the model: a record of functions over an abstract world \<open>'w\<close> (the
  repository on disk, the network, the boot environment). A \<open>GError **\<close> out-parameter
  is part of the returned value: \<open>Inl msg\<close> is "returned FALSE/NULL with the error set to
  a \<open>GError\<close> whose message is \<open>msg\<close>", \<open>Inr x\<close> is success.
\<close>

subsection \<open>Observable events\<close>

datatype call =
    Repo_open string
  | Remote_list
  | Remote_add string string
  | Pull string "string list"
  | Resolve_rev string
  | Sysroot_new
  | Sysroot_load
  | Origin_new string
  | Stage_tree string string string
  | Sysroot_cleanup

datatype res = Succeeded | Failed

datatype var = V_repo | V_remote_list | V_new_commit | V_sysroot | V_origin

datatype event =
    Lib call res
  | Out string
  | Err string
  | Release var

fun lib_events :: "event list \<Rightarrow> (call \<times> res) list" where
  "lib_events [] = []"
| "lib_events (Lib c r # es) = (c, r) # lib_events es"
| "lib_events (e # es) = lib_events es"

subsection \<open>The library and the world it acts on\<close>

record 'w ostree =
  repo_open :: "string \<Rightarrow> 'w \<Rightarrow> (string + unit) \<times> 'w"
  repo_remote_list :: "'w \<Rightarrow> string list option"
  repo_remote_add :: "string \<Rightarrow> string \<Rightarrow> 'w \<Rightarrow> (string + unit) \<times> 'w"
  repo_pull_with_options :: "string \<Rightarrow> string list \<Rightarrow> 'w \<Rightarrow> (string + unit) \<times> 'w"
  repo_resolve_rev :: "string \<Rightarrow> 'w \<Rightarrow> (string + string) \<times> 'w"
  sysroot_load :: "'w \<Rightarrow> (string + unit) \<times> 'w"
  sysroot_origin_new_from_refspec :: "string \<Rightarrow> 'w \<Rightarrow> bool \<times> 'w"
  sysroot_stage_tree_with_options :: "string \<Rightarrow> string \<Rightarrow> string \<Rightarrow> 'w \<Rightarrow> (string + unit) \<times> 'w"
  sysroot_cleanup :: "'w \<Rightarrow> (string + unit) \<times> 'w"

text \<open>
  \<open>repo_remote_list\<close> is \<open>ostree_repo_remote_list\<close>: it has no error parameter and
  returns either \<open>NULL\<close> (\<open>None\<close>) or a NULL-terminated array of names; it only reads.
  \<open>sysroot_origin_new_from_refspec\<close> returns a key file or \<open>NULL\<close> (\<open>False\<close>).
\<close>

record 'w sys =
  world :: 'w
  trace :: "event list"

definition emit :: "event \<Rightarrow> ('w, 'z) sys_scheme \<Rightarrow> ('w, 'z) sys_scheme" where
  "emit e s = s\<lparr>trace := trace s @ [e]\<rparr>"

definition verdict :: "string + 'a \<Rightarrow> res" where
  "verdict r = (case r of Inl _ \<Rightarrow> Failed | Inr _ \<Rightarrow> Succeeded)"

definition invoke ::
  "call \<Rightarrow> ('w \<Rightarrow> (string + 'a) \<times> 'w) \<Rightarrow> ('w, 'z) sys_scheme \<Rightarrow> (string + 'a) \<times> ('w, 'z) sys_scheme" where
  "invoke c f s = (case f (world s) of (r, w') \<Rightarrow> (r, emit (Lib c (verdict r)) (s\<lparr>world := w'\<rparr>)))"

subsection \<open>The wrappers\<close>

text \<open>
  Each wrapper makes one library call and hands its result back. \<open>open_repo\<close> also
  creates and drops a \<open>GFile\<close> and, on failure, drops the repository object it made;
  \<open>pull_remote\<close> packs the refs into the options dictionary under the key \<open>refs\<close>. The
  model keeps the call, its arguments and its result. \<open>list_remote\<close> is the one wrapper
  that makes up an error of its own: for a \<open>NULL\<close> result it sets \<open>G_IO_ERROR_FAILED\<close>
  with the message "Failed to list remotes".
\<close>

definition open_repo ::
  "'w ostree \<Rightarrow> string \<Rightarrow> ('w, 'z) sys_scheme \<Rightarrow> (string + unit) \<times> ('w, 'z) sys_scheme" where
  "open_repo L path s = invoke (Repo_open path) (repo_open L path) s"

definition list_remote ::
  "'w ostree \<Rightarrow> ('w, 'z) sys_scheme \<Rightarrow> (string + string list) \<times> ('w, 'z) sys_scheme" where
  "list_remote L s =
     (case repo_remote_list L (world s) of
        None \<Rightarrow> (Inl ''Failed to list remotes'', emit (Lib Remote_list Failed) s)
      | Some remotes \<Rightarrow> (Inr remotes, emit (Lib Remote_list Succeeded) s))"

definition add_remote ::
  "'w ostree \<Rightarrow> string \<Rightarrow> string \<Rightarrow> ('w, 'z) sys_scheme \<Rightarrow> (string + unit) \<times> ('w, 'z) sys_scheme" where
  "add_remote L remote_name remote_url s =
     invoke (Remote_add remote_name remote_url) (repo_remote_add L remote_name remote_url) s"

definition pull_remote ::
  "'w ostree \<Rightarrow> string \<Rightarrow> string list \<Rightarrow> ('w, 'z) sys_scheme \<Rightarrow> (string + unit) \<times> ('w, 'z) sys_scheme" where
  "pull_remote L remote_name refs s =
     invoke (Pull remote_name refs) (repo_pull_with_options L remote_name refs) s"

definition resolve_rev ::
  "'w ostree \<Rightarrow> string \<Rightarrow> ('w, 'z) sys_scheme \<Rightarrow> (string + string) \<times> ('w, 'z) sys_scheme" where
  "resolve_rev L ref s = invoke (Resolve_rev ref) (repo_resolve_rev L ref) s"

definition load_deployments ::
  "'w ostree \<Rightarrow> ('w, 'z) sys_scheme \<Rightarrow> (string + unit) \<times> ('w, 'z) sys_scheme" where
  "load_deployments L s = invoke Sysroot_load (sysroot_load L) s"

text \<open>
  \<open>create_origin\<close> formats into its parameter \<open>char *refspec_str\<close> with the size
  \<open>sizeof(refspec_str)\<close>: the size of a pointer, not of the caller's 128-byte buffer.
  \<open>g_snprintf\<close> writes at most that many bytes, the terminating NUL included. The
  deployed ref is an amd64 one; pointers are 8 bytes there. The key file is represented
  by the refspec it was made from.
\<close>

definition sizeof_char_ptr :: nat where
  "sizeof_char_ptr = 8"

text \<open>What \<open>g_snprintf\<close> leaves in the buffer for a size of at least one.\<close>

definition g_snprintf :: "nat \<Rightarrow> string \<Rightarrow> string" where
  "g_snprintf n formatted = take (n - 1) formatted"

datatype 'a ptr = Indeterminate | Null | Ref 'a

definition create_origin ::
  "'w ostree \<Rightarrow> string \<Rightarrow> string \<Rightarrow> ('w, 'z) sys_scheme \<Rightarrow> (string \<times> string ptr) \<times> ('w, 'z) sys_scheme" where
  "create_origin L remote_name ref s =
     (let refspec_str = g_snprintf sizeof_char_ptr (remote_name @ '':'' @ ref) in
      case sysroot_origin_new_from_refspec L refspec_str (world s) of
        (made, w') \<Rightarrow>
          ((refspec_str, if made then Ref refspec_str else Null),
           emit (Lib (Origin_new refspec_str) (if made then Succeeded else Failed)) (s\<lparr>world := w'\<rparr>)))"

definition deploy_tree ::
  "'w ostree \<Rightarrow> string \<Rightarrow> string \<Rightarrow> string \<Rightarrow> ('w, 'z) sys_scheme \<Rightarrow> (string + unit) \<times> ('w, 'z) sys_scheme" where
  "deploy_tree L osname new_commit origin s =
     invoke (Stage_tree osname new_commit origin)
       (sysroot_stage_tree_with_options L osname new_commit origin) s"

subsection \<open>Formatting\<close>

text \<open>\<open>%d\<close> of a non-negative number, and the newline that ends every message.\<close>

fun decimal :: "nat \<Rightarrow> string" where
  "decimal n =
     (if n < 10 then [char_of (48 + n)]
      else decimal (n div 10) @ [char_of (48 + n mod 10)])"

declare decimal.simps [simp del]

definition line :: "string \<Rightarrow> string" where
  "line s = s @ [CHR 0x0A]"

definition quoted :: "string \<Rightarrow> string" where
  "quoted s = [CHR 0x27] @ s @ [CHR 0x27]"

subsection \<open>The locals of \<open>main\<close>\<close>

text \<open>
  \<open>error\<close>, \<open>status\<close> and \<open>repo\<close> are declared and initialised at the top of \<open>main\<close>.
  \<open>remote_list\<close>, \<open>new_commit\<close>, \<open>sysroot\<close> and \<open>origin\<close> are declared further down,
  each with an initialiser that runs when control reaches the declaration. They are in
  scope from the start of the block, so a \<open>goto cleanup\<close> taken above a declaration
  arrives at the label with that variable never written: its value is indeterminate.
  Using an indeterminate value, and reading \<open>error->message\<close> while \<open>error\<close> is \<open>NULL\<close>,
  have no defined behaviour; the model stops there and says which one it was.
\<close>

record 'w frame = "'w sys" +
  error :: "string option"
  status :: int
  repo :: "unit ptr"
  remote_list :: "string list ptr"
  new_commit :: "string ptr"
  sysroot :: "unit ptr"
  origin :: "string ptr"

datatype undefined_behaviour = Null_error_read | Indeterminate_read var | Null_argument var

datatype ctl = Next | Goto_cleanup | Stop undefined_behaviour

datatype outcome = Returned int | Undefined undefined_behaviour

definition EXIT_SUCCESS :: int where "EXIT_SUCCESS = 0"
definition EXIT_FAILURE :: int where "EXIT_FAILURE = 1"

definition osname :: string where "osname = ''myos''"
definition remote_name :: string where "remote_name = ''linuxmint''"
definition remote_url :: string where "remote_url = ''https://updates.myserver.com/ostreerepo''"
definition ref :: string where "ref = ''myOS/amd64/stable''"
definition refs :: "string list" where "refs = [ref]"
definition repo_path :: string where "repo_path = ''/sysroot/ostree/repo''"

definition entry :: "'w \<Rightarrow> 'w frame" where
  "entry w = \<lparr>world = w, trace = [], error = None, status = EXIT_SUCCESS, repo = Null,
     remote_list = Indeterminate, new_commit = Indeterminate, sysroot = Indeterminate,
     origin = Indeterminate\<rparr>"

text \<open>
  The failure branch that every step shares:
  \<^verbatim>\<open>g_printerr("...: %s\n", error->message); status = EXIT_FAILURE; goto cleanup;\<close>
  (the pull step prints with \<open>g_print\<close>, hence the channel parameter).
\<close>

definition fail :: "(string \<Rightarrow> event) \<Rightarrow> string \<Rightarrow> 'w frame \<Rightarrow> ctl \<times> 'w frame" where
  "fail channel what f =
     (case error f of
        None \<Rightarrow> (Stop Null_error_read, f)
      | Some message \<Rightarrow>
          (Goto_cleanup, (emit (channel (line (what @ message))) f)\<lparr>status := EXIT_FAILURE\<rparr>))"

text \<open>
  A step ends in \<open>Next\<close> (fall through to the next statement), in \<open>Goto_cleanup\<close> or
  where its behaviour stops being defined; the steps that follow run only after \<open>Next\<close>.
\<close>

fun run_steps :: "('s \<Rightarrow> ctl \<times> 's) list \<Rightarrow> 's \<Rightarrow> ctl \<times> 's" where
  "run_steps [] f = (Next, f)"
| "run_steps (step # steps) f =
     (case step f of (Next, f') \<Rightarrow> run_steps steps f' | (c, f') \<Rightarrow> (c, f'))"

subsection \<open>The steps of \<open>main\<close>, in source order\<close>

definition step_open :: "'w ostree \<Rightarrow> 'w frame \<Rightarrow> ctl \<times> 'w frame" where
  "step_open L f =
     (case open_repo L repo_path f of
        (Inl message, f') \<Rightarrow> fail Err ''Failed to open repo: '' (f'\<lparr>error := Some message, repo := Null\<rparr>)
      | (Inr _, f') \<Rightarrow> (Next, emit (Out (line ''Repository opened successfully!'')) (f'\<lparr>repo := Ref ()\<rparr>)))"

fun print_remotes :: "nat \<Rightarrow> string list \<Rightarrow> event list" where
  "print_remotes i [] = []"
| "print_remotes i (r # rs) =
     Out (line (''Remote '' @ decimal (i + 1) @ '': '' @ r)) # print_remotes (i + 1) rs"

definition step_list :: "'w ostree \<Rightarrow> 'w frame \<Rightarrow> ctl \<times> 'w frame" where
  "step_list L f =
     (case list_remote L (f\<lparr>remote_list := Null\<rparr>) of
        (Inl message, f') \<Rightarrow> fail Err ''Failed to list remotes: '' (f'\<lparr>error := Some message, remote_list := Null\<rparr>)
      | (Inr remotes, f') \<Rightarrow>
          (Next, f'\<lparr>remote_list := Ref remotes, trace := trace f' @ print_remotes 0 remotes\<rparr>))"

text \<open>The search loop of lines 149 to 154.\<close>

fun remote_exists :: "string list \<Rightarrow> string \<Rightarrow> bool" where
  "remote_exists [] name = False"
| "remote_exists (r # rs) name = (if r = name then True else remote_exists rs name)"

definition add_or_fail :: "'w ostree \<Rightarrow> string \<Rightarrow> string \<Rightarrow> 'w frame \<Rightarrow> ctl \<times> 'w frame" where
  "add_or_fail L name url f =
     (case add_remote L name url f of
        (Inl message, f') \<Rightarrow> fail Err ''Failed to add remote: '' (f'\<lparr>error := Some message\<rparr>)
      | (Inr _, f') \<Rightarrow> (Next, emit (Out (line (''Remote '' @ quoted name @ '' added successfully.''))) f'))"

text \<open>
  Lines 146 to 174, with the remote's name and URL as parameters (\<open>main\<close> passes its two
  constants). The \<open>else\<close> branch adds the remote when \<open>remote_list\<close> is \<open>NULL\<close>.
\<close>

definition step_ensure :: "'w ostree \<Rightarrow> string \<Rightarrow> string \<Rightarrow> 'w frame \<Rightarrow> ctl \<times> 'w frame" where
  "step_ensure L name url f =
     (case remote_list f of
        Indeterminate \<Rightarrow> (Stop (Indeterminate_read V_remote_list), f)
      | Ref remotes \<Rightarrow>
          if remote_exists remotes name
          then (Next, emit (Out (line (''Remote '' @ quoted name @ '' already exists.''))) f)
          else add_or_fail L name url f
      | Null \<Rightarrow> add_or_fail L name url f)"

definition step_pull :: "'w ostree \<Rightarrow> 'w frame \<Rightarrow> ctl \<times> 'w frame" where
  "step_pull L f =
     (case pull_remote L remote_name refs f of
        (Inl message, f') \<Rightarrow> fail Out ''Failed to pull refs: '' (f'\<lparr>error := Some message\<rparr>)
      | (Inr _, f') \<Rightarrow>
          (Next, emit (Out (line (''Pull from remote '' @ quoted remote_name @ '' completed successfully.''))) f'))"

definition step_resolve :: "'w ostree \<Rightarrow> 'w frame \<Rightarrow> ctl \<times> 'w frame" where
  "step_resolve L f =
     (case resolve_rev L ref (f\<lparr>new_commit := Null\<rparr>) of
        (Inl message, f') \<Rightarrow> fail Err ''Failed to resolve commits: '' (f'\<lparr>error := Some message\<rparr>)
      | (Inr commit, f') \<Rightarrow>
          (Next, emit (Out (line (''Resolved commit: '' @ commit))) (f'\<lparr>new_commit := Ref commit\<rparr>)))"

definition step_load :: "'w ostree \<Rightarrow> 'w frame \<Rightarrow> ctl \<times> 'w frame" where
  "step_load L f =
     (case load_deployments L (emit (Lib Sysroot_new Succeeded) (f\<lparr>sysroot := Ref ()\<rparr>)) of
        (Inl message, f') \<Rightarrow> fail Err ''Failed to load deployments: '' (f'\<lparr>error := Some message\<rparr>)
      | (Inr _, f') \<Rightarrow> (Next, emit (Out (line ''Sysroot deployments loaded successfully.'')) f'))"

text \<open>\<open>create_origin\<close> has no \<open>GError **\<close> parameter: \<open>error\<close> is what the earlier steps left.\<close>

definition step_origin :: "'w ostree \<Rightarrow> 'w frame \<Rightarrow> ctl \<times> 'w frame" where
  "step_origin L f =
     (case create_origin L remote_name ref (f\<lparr>origin := Null\<rparr>) of
        ((refspec_str, Ref key_file), f') \<Rightarrow>
          (Next, emit (Out (line ''Origin file created successfully.'')) (f'\<lparr>origin := Ref key_file\<rparr>))
      | ((refspec_str, _), f') \<Rightarrow> fail Err ''Failed to create an .origin file: '' (f'\<lparr>origin := Null\<rparr>))"

definition step_deploy :: "'w ostree \<Rightarrow> 'w frame \<Rightarrow> ctl \<times> 'w frame" where
  "step_deploy L f =
     (case new_commit f of
        Indeterminate \<Rightarrow> (Stop (Indeterminate_read V_new_commit), f)
      | Null \<Rightarrow> (Stop (Null_argument V_new_commit), f)
      | Ref commit \<Rightarrow>
          (case origin f of
             Indeterminate \<Rightarrow> (Stop (Indeterminate_read V_origin), f)
           | Null \<Rightarrow> (Stop (Null_argument V_origin), f)
           | Ref key_file \<Rightarrow>
               (case deploy_tree L osname commit key_file f of
                  (Inl message, f') \<Rightarrow> fail Err ''Failed to deploy tree: '' (f'\<lparr>error := Some message\<rparr>)
                | (Inr _, f') \<Rightarrow>
                    (Next, emit (Out (line (''Deployed new commit '' @ commit @ ''. It will boot on next restart.''))) f'))))"

definition step_prune :: "'w ostree \<Rightarrow> 'w frame \<Rightarrow> ctl \<times> 'w frame" where
  "step_prune L f =
     (case invoke Sysroot_cleanup (sysroot_cleanup L) f of
        (Inl message, f') \<Rightarrow> fail Err ''OSTree cleanup failed: '' (f'\<lparr>error := Some message\<rparr>)
      | (Inr _, f') \<Rightarrow> (Next, emit (Out (line ''OSTree cleanup completed successfully.'')) f'))"

subsection \<open>The \<open>cleanup\<close> label and \<open>main\<close>\<close>

definition clear_error :: "'w frame \<Rightarrow> ctl \<times> 'w frame" where
  "clear_error f = (Next, f\<lparr>error := None\<rparr>)"

text \<open>\<^verbatim>\<open>if (p) { release(p); }\<close> for one of the five pointers.\<close>

definition release :: "var \<Rightarrow> ('w frame \<Rightarrow> 'a ptr) \<Rightarrow> 'w frame \<Rightarrow> ctl \<times> 'w frame" where
  "release v p f =
     (case p f of
        Indeterminate \<Rightarrow> (Stop (Indeterminate_read v), f)
      | Null \<Rightarrow> (Next, f)
      | Ref _ \<Rightarrow> (Next, emit (Release v) f))"

definition report :: "'w frame \<Rightarrow> ctl \<times> 'w frame" where
  "report f =
     (Next, if status f = EXIT_SUCCESS
            then emit (Out (line ''All operations completed successfully.'')) f
            else emit (Err (line ''Update failed'')) f)"

definition cleanup :: "('w frame \<Rightarrow> ctl \<times> 'w frame) list" where
  "cleanup = [clear_error, release V_repo repo, release V_remote_list remote_list,
     release V_new_commit new_commit, release V_sysroot sysroot, release V_origin origin,
     report]"

definition body :: "'w ostree \<Rightarrow> ('w frame \<Rightarrow> ctl \<times> 'w frame) list" where
  "body L = [step_open L, step_list L, step_ensure L remote_name remote_url, step_pull L,
     step_resolve L, step_load L, step_origin L, step_deploy L, step_prune L]"

text \<open>
  \<open>main\<close> takes no parameters. Control reaches \<open>cleanup\<close> by a \<open>goto\<close> or by falling
  through after the last step; \<open>cleanup\<close> ends in \<open>return status\<close>.
\<close>

definition leave :: "ctl \<times> 'w frame \<Rightarrow> outcome \<times> 'w frame" where
  "leave r =
     (case r of
        (Stop u, f) \<Rightarrow> (Undefined u, f)
      | (_, f) \<Rightarrow>
          (case run_steps cleanup f of
             (Stop u, f') \<Rightarrow> (Undefined u, f')
           | (_, f') \<Rightarrow> (Returned (status f'), f')))"

definition main :: "'w ostree \<Rightarrow> 'w \<Rightarrow> outcome \<times> 'w frame" where
  "main L w = leave (run_steps (body L) (entry w))"

subsection \<open>What a run is compared with\<close>

definition libs :: "'w frame \<Rightarrow> (call \<times> res) list" where
  "libs f = lib_events (trace f)"

definition refspec :: string where
  "refspec = g_snprintf sizeof_char_ptr (remote_name @ '':'' @ ref)"

text \<open>
  The order of the transaction, as the specification lists it: ensure-remote (open, list,
  and the addition when the remote is not listed), pull, resolve, load-deployments,
  build-origin and stage, prune.
\<close>

definition transaction_plan :: "bool \<Rightarrow> string \<Rightarrow> call list" where
  "transaction_plan with_add commit =
     [Repo_open repo_path, Remote_list] @
     (if with_add then [Remote_add remote_name remote_url] else []) @
     [Pull remote_name refs, Resolve_rev ref, Sysroot_new, Sysroot_load, Origin_new refspec,
      Stage_tree osname commit refspec, Sysroot_cleanup]"

text \<open>
  What the library answers along a run that starts in \<open>w\<close>: the world the open call
  leaves, the names the listing returns there (none for \<open>NULL\<close>), the world after the
  ensure step (the addition is made when the remote's name is not among those names), the
  world after the pull, and the commit the resolve call returns there. \<open>plan_of\<close> is the
  plan these answers call for.
\<close>

definition opened :: "'w ostree \<Rightarrow> 'w \<Rightarrow> 'w" where
  "opened L w = snd (repo_open L repo_path w)"

definition listed_names :: "'w ostree \<Rightarrow> 'w \<Rightarrow> string list" where
  "listed_names L w = (case repo_remote_list L w of None \<Rightarrow> [] | Some names \<Rightarrow> names)"

definition after_ensure :: "'w ostree \<Rightarrow> 'w \<Rightarrow> 'w" where
  "after_ensure L w =
     (if remote_name \<in> set (listed_names L w) then w
      else snd (repo_remote_add L remote_name remote_url w))"

definition after_pull :: "'w ostree \<Rightarrow> 'w \<Rightarrow> 'w" where
  "after_pull L w = snd (repo_pull_with_options L remote_name refs w)"

definition commit_at :: "'w ostree \<Rightarrow> 'w \<Rightarrow> string" where
  "commit_at L w = (case fst (repo_resolve_rev L ref w) of Inl _ \<Rightarrow> [] | Inr commit \<Rightarrow> commit)"

definition needs_add :: "'w ostree \<Rightarrow> 'w \<Rightarrow> bool" where
  "needs_add L w \<longleftrightarrow> remote_name \<notin> set (listed_names L (opened L w))"

definition resolved :: "'w ostree \<Rightarrow> 'w \<Rightarrow> string" where
  "resolved L w = commit_at L (after_pull L (after_ensure L (opened L w)))"

definition plan_of :: "'w ostree \<Rightarrow> 'w \<Rightarrow> call list" where
  "plan_of L w = transaction_plan (needs_add L w) (resolved L w)"

definition boot_op :: "call \<Rightarrow> bool" where
  "boot_op c = (case c of Stage_tree _ _ _ \<Rightarrow> True | Sysroot_cleanup \<Rightarrow> True | _ \<Rightarrow> False)"

text \<open>
  How \<open>main\<close> ends when the given call is the one that fails: the first pointer that
  \<open>cleanup\<close> tests without its declaration having been reached, the read of
  \<open>error->message\<close> after \<open>create_origin\<close>, or \<open>EXIT_FAILURE\<close>.
  (\<open>ostree_sysroot_new_default\<close> has no failure result; its line is never used.)
\<close>

fun exit_after :: "call \<Rightarrow> outcome" where
  "exit_after (Repo_open _) = Undefined (Indeterminate_read V_remote_list)"
| "exit_after Remote_list = Undefined (Indeterminate_read V_new_commit)"
| "exit_after (Remote_add _ _) = Undefined (Indeterminate_read V_new_commit)"
| "exit_after (Pull _ _) = Undefined (Indeterminate_read V_new_commit)"
| "exit_after (Resolve_rev _) = Undefined (Indeterminate_read V_sysroot)"
| "exit_after Sysroot_new = Undefined (Indeterminate_read V_origin)"
| "exit_after Sysroot_load = Undefined (Indeterminate_read V_origin)"
| "exit_after (Origin_new _) = Undefined Null_error_read"
| "exit_after (Stage_tree _ _ _) = Returned EXIT_FAILURE"
| "exit_after Sysroot_cleanup = Returned EXIT_FAILURE"

text \<open>
  \<open>follows p evs out\<close>: the calls \<open>evs\<close> are the plan \<open>p\<close> carried out from its start, each
  call made after the one before it succeeded, up to the first failure or to the end of
  the plan, and \<open>out\<close> is how the run ends then.
\<close>

fun follows :: "call list \<Rightarrow> (call \<times> res) list \<Rightarrow> outcome \<Rightarrow> bool" where
  "follows [] evs out = (evs = [] \<and> out = Returned EXIT_SUCCESS)"
| "follows (c # p) [] out = False"
| "follows (c # p) ((c', Succeeded) # evs) out = (c' = c \<and> follows p evs out)"
| "follows (c # p) ((c', Failed) # evs) out = (c' = c \<and> evs = [] \<and> out = exit_after c)"

subsection \<open>Auxiliary notions for the proofs\<close>

text \<open>The five pointers of a frame, and a frame on which no step has failed yet.\<close>

definition ptrs :: "'w frame \<Rightarrow> unit ptr \<times> string list ptr \<times> string ptr \<times> unit ptr \<times> string ptr" where
  "ptrs f = (repo f, remote_list f, new_commit f, sysroot f, origin f)"

definition good :: "'w frame \<Rightarrow> bool" where
  "good f \<longleftrightarrow> error f = None \<and> status f = EXIT_SUCCESS"

definition ran :: "call list \<Rightarrow> 'w frame \<Rightarrow> outcome \<times> 'w frame \<Rightarrow> bool" where
  "ran p f r \<longleftrightarrow> (\<exists>evs. libs (snd r) = libs f @ evs \<and> follows p evs (fst r))"

definition after_list :: "bool \<Rightarrow> string \<Rightarrow> call list" where
  "after_list with_add commit =
     (if with_add then [Remote_add remote_name remote_url] else []) @
     [Pull remote_name refs, Resolve_rev ref, Sysroot_new, Sysroot_load, Origin_new refspec,
      Stage_tree osname commit refspec, Sysroot_cleanup]"

text \<open>
  Two messages of \<open>main\<close>: the line that reports the staged commit, and the diagnostic of
  a failed prune.
\<close>

definition deployed_note :: "string \<Rightarrow> event" where
  "deployed_note commit =
     Out (line (''Deployed new commit '' @ commit @ ''. It will boot on next restart.''))"

definition prune_note :: "string \<Rightarrow> event" where
  "prune_note message = Err (line (''OSTree cleanup failed: '' @ message))"

text \<open>
  Relations between a frame and a later one: the trace has grown by events of some kind;
  the world is the same and the trace has grown by events that are no library calls.
\<close>

definition extends :: "(event list \<Rightarrow> bool) \<Rightarrow> 'w frame \<Rightarrow> 'w frame \<Rightarrow> bool" where
  "extends P f f' \<longleftrightarrow> (\<exists>evs. trace f' = trace f @ evs \<and> P evs)"

definition no_boot_calls :: "event list \<Rightarrow> bool" where
  "no_boot_calls evs \<longleftrightarrow> (\<forall>c r. Lib c r \<in> set evs \<longrightarrow> \<not> boot_op c)"

definition tidies :: "'w frame \<Rightarrow> 'w frame \<Rightarrow> bool" where
  "tidies f f' \<longleftrightarrow> world f' = world f \<and> extends (\<lambda>evs. lib_events evs = []) f f'"

text \<open>A call whose arguments are the constants of \<open>main\<close> (the staged commit is whatever
  the resolve step returned).\<close>

fun fixed_call :: "call \<Rightarrow> bool" where
  "fixed_call (Repo_open path) = (path = repo_path)"
| "fixed_call Remote_list = True"
| "fixed_call (Remote_add name url) = (name = remote_name \<and> url = remote_url)"
| "fixed_call (Pull name rs) = (name = remote_name \<and> rs = [ref])"
| "fixed_call (Resolve_rev r) = (r = ref)"
| "fixed_call Sysroot_new = True"
| "fixed_call Sysroot_load = True"
| "fixed_call (Origin_new r) = (r = refspec)"
| "fixed_call (Stage_tree os commit key) = (os = osname \<and> key = refspec)"
| "fixed_call Sysroot_cleanup = True"

text \<open>What line 137 stores in \<open>remote_list\<close> when the store is \<open>w\<close>.\<close>

definition listing :: "'w ostree \<Rightarrow> 'w \<Rightarrow> string list ptr" where
  "listing L w = (case repo_remote_list L w of None \<Rightarrow> Null | Some rs \<Rightarrow> Ref rs)"

subsection \<open>A stand-in library for concrete runs\<close>

text \<open>
  The remotes of the repository and the staged commits, with a library in which every call
  succeeds, and variants of it in which one call fails. Its listing is the one of
  \<open>ostree_repo_remote_list\<close>, which allocates the array of names only when there is at
  least one remote and returns \<open>NULL\<close> otherwise.
\<close>

record disk =
  remotes :: "(string \<times> string) list"
  staged :: "string list"

definition stub :: "disk ostree" where
  "stub = \<lparr>repo_open = (\<lambda>path d. (Inr (), d)),
     repo_remote_list = (\<lambda>d. if remotes d = [] then None else Some (map fst (remotes d))),
     repo_remote_add = (\<lambda>name url d.
       if name \<in> set (map fst (remotes d)) then (Inl ''Remote already exists'', d)
       else (Inr (), d\<lparr>remotes := remotes d @ [(name, url)]\<rparr>)),
     repo_pull_with_options = (\<lambda>name rs d. (Inr (), d)),
     repo_resolve_rev = (\<lambda>r d. (Inr ''c0ffee'', d)),
     sysroot_load = (\<lambda>d. (Inr (), d)),
     sysroot_origin_new_from_refspec = (\<lambda>r d. (True, d)),
     sysroot_stage_tree_with_options = (\<lambda>os commit key d.
       (Inr (), d\<lparr>staged := staged d @ [commit]\<rparr>)),
     sysroot_cleanup = (\<lambda>d. (Inr (), d))\<rparr>"

definition disk0 :: disk where
  "disk0 = \<lparr>remotes = [(''flathub'', ''https://dl.flathub.org/repo'')], staged = []\<rparr>"

definition disk1 :: disk where
  "disk1 = \<lparr>remotes = [(''fedora'', ''https://ostree.fedoraproject.org'')], staged = [''0ld'']\<rparr>"

definition empty_disk :: disk where
  "empty_disk = \<lparr>remotes = [], staged = []\<rparr>"

definition open_fails :: "disk ostree" where
  "open_fails = stub\<lparr>repo_open := (\<lambda>path d. (Inl ''No such file or directory'', d))\<rparr>"

definition add_fails :: "disk ostree" where
  "add_fails = stub\<lparr>repo_remote_add := (\<lambda>name url d. (Inl ''Read-only file system'', d))\<rparr>"

definition pull_fails :: "disk ostree" where
  "pull_fails = stub\<lparr>repo_pull_with_options := (\<lambda>name rs d. (Inl ''Connection refused'', d))\<rparr>"

definition no_origin :: "disk ostree" where
  "no_origin = stub\<lparr>sysroot_origin_new_from_refspec := (\<lambda>r d. (False, d))\<rparr>"

definition prune_fails :: "disk ostree" where
  "prune_fails = stub\<lparr>sysroot_cleanup := (\<lambda>d. (Inl ''Device or resource busy'', d))\<rparr>"

text \<open>The frame of \<open>main\<close> on arrival at line 146, for a store \<open>d\<close>.\<close>

definition at_ensure :: "disk \<Rightarrow> disk frame" where
  "at_ensure d = (entry d)\<lparr>repo := Ref (), remote_list := listing stub d\<rparr>"

section \<open>Lemmas\<close>

subsection \<open>One step at a time\<close>

lemma lib_events_append [simp]: "lib_events (xs @ ys) = lib_events xs @ lib_events ys"
  by (induction xs rule: lib_events.induct) simp_all

lemma lib_events_print_remotes [simp]: "lib_events (print_remotes i rs) = []"
  by (induction rs arbitrary: i) simp_all

declare run_steps.simps(2) [simp del]

lemma remote_exists_iff: "remote_exists rs name \<longleftrightarrow> name \<in> set rs"
  by (induction rs) auto

lemmas wrapper_defs = open_repo_def list_remote_def add_remote_def pull_remote_def
  resolve_rev_def load_deployments_def create_origin_def deploy_tree_def invoke_def emit_def
  verdict_def fail_def

lemma step_open_cases:
  assumes "step_open L f = (c, f')" "good f" "ptrs f = (p1, p2, p3, p4, p5)"
  shows "(c = Next \<and> libs f' = libs f @ [(Repo_open repo_path, Succeeded)] \<and> good f'
           \<and> ptrs f' = (Ref (), p2, p3, p4, p5) \<and> world f' = opened L (world f))
       \<or> (c = Goto_cleanup \<and> libs f' = libs f @ [(Repo_open repo_path, Failed)]
           \<and> status f' = EXIT_FAILURE \<and> ptrs f' = (Null, p2, p3, p4, p5))"
  using assms unfolding step_open_def
  by (auto simp: wrapper_defs libs_def ptrs_def good_def opened_def split: prod.splits sum.splits)

lemma step_list_cases:
  assumes "step_list L f = (c, f')" "good f" "ptrs f = (p1, p2, p3, p4, p5)"
  shows "(c = Next \<and> libs f' = libs f @ [(Remote_list, Succeeded)] \<and> good f'
           \<and> ptrs f' = (p1, Ref (listed_names L (world f)), p3, p4, p5) \<and> world f' = world f)
       \<or> (c = Goto_cleanup \<and> libs f' = libs f @ [(Remote_list, Failed)]
           \<and> status f' = EXIT_FAILURE \<and> ptrs f' = (p1, Null, p3, p4, p5))"
  using assms unfolding step_list_def
  by (auto simp: wrapper_defs libs_def ptrs_def good_def listed_names_def
      split: prod.splits sum.splits option.splits)

lemma step_ensure_cases:
  assumes "step_ensure L name url f = (c, f')" "good f" "ptrs f = (p1, Ref rs, p3, p4, p5)"
  shows "(name \<in> set rs \<and> c = Next \<and> libs f' = libs f \<and> good f' \<and> ptrs f' = ptrs f
           \<and> world f' = world f)
       \<or> (name \<notin> set rs \<and> c = Next \<and> libs f' = libs f @ [(Remote_add name url, Succeeded)]
           \<and> good f' \<and> ptrs f' = ptrs f
           \<and> world f' = snd (repo_remote_add L name url (world f)))
       \<or> (name \<notin> set rs \<and> c = Goto_cleanup
           \<and> libs f' = libs f @ [(Remote_add name url, Failed)]
           \<and> status f' = EXIT_FAILURE \<and> ptrs f' = ptrs f)"
  using assms unfolding step_ensure_def add_or_fail_def
  by (auto simp: wrapper_defs libs_def ptrs_def good_def remote_exists_iff
      split: prod.splits sum.splits if_splits)

lemma step_pull_cases:
  assumes "step_pull L f = (c, f')" "good f"
  shows "(c = Next \<and> libs f' = libs f @ [(Pull remote_name refs, Succeeded)] \<and> good f'
           \<and> ptrs f' = ptrs f \<and> world f' = after_pull L (world f))
       \<or> (c = Goto_cleanup \<and> libs f' = libs f @ [(Pull remote_name refs, Failed)]
           \<and> status f' = EXIT_FAILURE \<and> ptrs f' = ptrs f)"
  using assms unfolding step_pull_def
  by (auto simp: wrapper_defs libs_def ptrs_def good_def after_pull_def
      split: prod.splits sum.splits)

lemma step_resolve_cases:
  assumes "step_resolve L f = (c, f')" "good f" "ptrs f = (p1, p2, p3, p4, p5)"
  shows "(c = Next \<and> libs f' = libs f @ [(Resolve_rev ref, Succeeded)] \<and> good f'
           \<and> ptrs f' = (p1, p2, Ref (commit_at L (world f)), p4, p5))
       \<or> (c = Goto_cleanup \<and> libs f' = libs f @ [(Resolve_rev ref, Failed)]
           \<and> status f' = EXIT_FAILURE \<and> ptrs f' = (p1, p2, Null, p4, p5))"
  using assms unfolding step_resolve_def
  by (auto simp: wrapper_defs libs_def ptrs_def good_def commit_at_def
      split: prod.splits sum.splits)

lemma step_load_cases:
  assumes "step_load L f = (c, f')" "good f" "ptrs f = (p1, p2, p3, p4, p5)"
  shows "(c = Next \<and> libs f' = libs f @ [(Sysroot_new, Succeeded), (Sysroot_load, Succeeded)]
           \<and> good f' \<and> ptrs f' = (p1, p2, p3, Ref (), p5))
       \<or> (c = Goto_cleanup \<and> libs f' = libs f @ [(Sysroot_new, Succeeded), (Sysroot_load, Failed)]
           \<and> status f' = EXIT_FAILURE \<and> ptrs f' = (p1, p2, p3, Ref (), p5))"
  using assms unfolding step_load_def
  by (auto simp: wrapper_defs libs_def ptrs_def good_def split: prod.splits sum.splits)

lemma step_origin_cases:
  assumes "step_origin L f = (c, f')" "good f" "ptrs f = (p1, p2, p3, p4, p5)"
  shows "(c = Next \<and> libs f' = libs f @ [(Origin_new refspec, Succeeded)] \<and> good f'
           \<and> ptrs f' = (p1, p2, p3, p4, Ref refspec))
       \<or> (c = Stop Null_error_read \<and> libs f' = libs f @ [(Origin_new refspec, Failed)])"
  using assms unfolding step_origin_def
  by (auto simp: wrapper_defs libs_def ptrs_def good_def refspec_def Let_def
      split: prod.splits sum.splits ptr.splits if_splits)

lemma step_deploy_cases:
  assumes "step_deploy L f = (c, f')" "good f" "ptrs f = (p1, p2, Ref commit, p4, Ref key)"
  shows "(c = Next \<and> libs f' = libs f @ [(Stage_tree osname commit key, Succeeded)] \<and> good f'
           \<and> ptrs f' = ptrs f)
       \<or> (c = Goto_cleanup \<and> libs f' = libs f @ [(Stage_tree osname commit key, Failed)]
           \<and> status f' = EXIT_FAILURE \<and> ptrs f' = ptrs f)"
  using assms unfolding step_deploy_def
  by (auto simp: wrapper_defs libs_def ptrs_def good_def split: prod.splits sum.splits)

lemma step_prune_cases:
  assumes "step_prune L f = (c, f')" "good f"
  shows "(c = Next \<and> libs f' = libs f @ [(Sysroot_cleanup, Succeeded)] \<and> good f'
           \<and> ptrs f' = ptrs f)
       \<or> (c = Goto_cleanup \<and> libs f' = libs f @ [(Sysroot_cleanup, Failed)]
           \<and> status f' = EXIT_FAILURE \<and> ptrs f' = ptrs f)"
  using assms unfolding step_prune_def
  by (auto simp: wrapper_defs libs_def ptrs_def good_def split: prod.splits sum.splits)

lemmas cleanup_defs = cleanup_def clear_error_def release_def report_def

lemmas step_defs = step_open_def step_list_def step_ensure_def add_or_fail_def step_pull_def
  step_resolve_def step_load_def step_origin_def step_deploy_def step_prune_def

lemmas const_defs = osname_def remote_name_def remote_url_def ref_def refs_def repo_path_def
  EXIT_SUCCESS_def EXIT_FAILURE_def refspec_def g_snprintf_def sizeof_char_ptr_def line_def
  quoted_def

lemmas run_defs = main_def body_def leave_def run_steps.simps(2) step_defs wrapper_defs cleanup_defs
  entry_def libs_def Let_def const_defs

lemmas stub_defs = stub_def disk0_def disk1_def empty_disk_def open_fails_def add_fails_def
  pull_fails_def no_origin_def prune_fails_def


subsection \<open>The \<open>cleanup\<close> label\<close>

lemma run_steps_libs:
  "(\<And>s f. s \<in> set ss \<Longrightarrow> libs (snd (s f)) = libs f) \<Longrightarrow> libs (snd (run_steps ss f)) = libs f"
proof (induction ss arbitrary: f)
  case Nil
  then show ?case by (simp add: run_steps.simps(2))
next
  case (Cons s ss)
  obtain c f' where s: "s f = (c, f')" by fastforce
  have l: "libs f' = libs f" using Cons.prems [of s f] s by simp
  show ?case
  proof (cases c)
    case Next
    then show ?thesis using s l Cons.IH [of f'] Cons.prems by (simp add: run_steps.simps(2))
  qed (use s l in \<open>simp_all add: run_steps.simps(2)\<close>)
qed

lemma release_libs: "libs (snd (release v p f)) = libs f"
  by (simp add: release_def emit_def libs_def split: ptr.splits)

lemma clear_error_libs: "libs (snd (clear_error f)) = libs f"
  by (simp add: clear_error_def libs_def)

lemma report_libs: "libs (snd (report f)) = libs f"
  by (simp add: report_def emit_def libs_def)

lemma cleanup_libs: "libs (snd (run_steps cleanup f)) = libs f"
  by (rule run_steps_libs)
     (auto simp: cleanup_def release_libs clear_error_libs report_libs)

lemma leave_libs: "libs (snd (leave (c, f))) = libs f"
proof -
  obtain c' f' where r: "run_steps cleanup f = (c', f')" by fastforce
  have "libs f' = libs f" using cleanup_libs [of f] r by simp
  then show ?thesis using r by (simp add: leave_def split: ctl.splits)
qed

lemma run_release:
  "run_steps (release v p # ss) f =
     (case p f of
        Indeterminate \<Rightarrow> (Stop (Indeterminate_read v), f)
      | Null \<Rightarrow> run_steps ss f
      | Ref x \<Rightarrow> run_steps ss (emit (Release v) f))"
  by (simp add: release_def run_steps.simps(2) split: ptr.splits)

lemma run_clear_error: "run_steps (clear_error # ss) f = run_steps ss (f\<lparr>error := None\<rparr>)"
  by (simp add: clear_error_def run_steps.simps(2))

lemma run_report: "run_steps [report] f = report f"
  by (simp add: report_def run_steps.simps(2))

lemma emit_fields [simp]:
  "repo (emit e f) = repo f" "remote_list (emit e f) = remote_list f"
  "new_commit (emit e f) = new_commit f" "sysroot (emit e f) = sysroot f"
  "origin (emit e f) = origin f" "status (emit e f) = status f" "error (emit e f) = error f"
  by (simp_all add: emit_def)

lemma leave_outcome:
  assumes "ptrs f = (p1, p2, p3, p4, p5)" "c = Next \<or> c = Goto_cleanup"
  shows "fst (leave (c, f)) =
     (if p1 = Indeterminate then Undefined (Indeterminate_read V_repo)
      else if p2 = Indeterminate then Undefined (Indeterminate_read V_remote_list)
      else if p3 = Indeterminate then Undefined (Indeterminate_read V_new_commit)
      else if p4 = Indeterminate then Undefined (Indeterminate_read V_sysroot)
      else if p5 = Indeterminate then Undefined (Indeterminate_read V_origin)
      else Returned (status f))"
proof -
  have p: "repo f = p1" "remote_list f = p2" "new_commit f = p3" "sysroot f = p4" "origin f = p5"
    using assms(1) by (simp_all add: ptrs_def)
  have "fst (case run_steps cleanup f of (Stop u, f') \<Rightarrow> (Undefined u, f')
           | (_, f') \<Rightarrow> (Returned (status f'), f')) =
     (if p1 = Indeterminate then Undefined (Indeterminate_read V_repo)
      else if p2 = Indeterminate then Undefined (Indeterminate_read V_remote_list)
      else if p3 = Indeterminate then Undefined (Indeterminate_read V_new_commit)
      else if p4 = Indeterminate then Undefined (Indeterminate_read V_sysroot)
      else if p5 = Indeterminate then Undefined (Indeterminate_read V_origin)
      else Returned (status f))"
    unfolding cleanup_def
    by (simp add: run_clear_error run_release run_report report_def p split: ptr.splits)
  then show ?thesis using assms(2) by (auto simp: leave_def)
qed


subsection \<open>Every run follows the plan\<close>

lemma ran_step: "libs f' = libs f @ [(c, Succeeded)] \<Longrightarrow> ran p f' r \<Longrightarrow> ran (c # p) f r"
  by (auto simp: ran_def)

lemma ran_fail:
  "libs f' = libs f @ [(c, Failed)] \<Longrightarrow> fst (leave (k, f')) = exit_after c \<Longrightarrow>
   ran (c # p) f (leave (k, f'))"
  by (simp add: ran_def leave_libs)

lemma ran_end:
  "good f \<Longrightarrow> ptrs f = (Ref a, Ref b, Ref c, Ref d, Ref e) \<Longrightarrow> ran [] f (leave (Next, f))"
  by (simp add: ran_def leave_libs leave_outcome good_def)

lemma tail_ok:
  assumes "s f = (Next, f')" "libs f' = libs f @ [(c, Succeeded)]"
    "ran p f' (leave (run_steps ss f'))"
  shows "ran (c # p) f (leave (run_steps (s # ss) f))"
  using assms by (simp add: ran_step run_steps.simps(2))

lemma tail_fail:
  assumes "s f = (k, f')" "k \<noteq> Next" "libs f' = libs f @ [(c, Failed)]"
    "fst (leave (k, f')) = exit_after c"
  shows "ran (c # p) f (leave (run_steps (s # ss) f))"
proof -
  have "run_steps (s # ss) f = (k, f')"
    using assms(1,2) by (cases k) (simp_all add: run_steps.simps(2))
  then show ?thesis using assms(3,4) by (simp add: ran_fail)
qed

lemma tail_prune:
  assumes "good f" "ptrs f = (Ref a, Ref b, Ref c, Ref d, Ref e)"
  shows "ran [Sysroot_cleanup] f (leave (run_steps [step_prune L] f))"
proof -
  obtain k f' where s: "step_prune L f = (k, f')" by fastforce
  from step_prune_cases [OF s assms(1)] show ?thesis
  proof (elim disjE conjE)
    assume h: "k = Next" "libs f' = libs f @ [(Sysroot_cleanup, Succeeded)]" "good f'"
      "ptrs f' = ptrs f"
    have "ran [] f' (leave (run_steps [] f'))"
      using ran_end [OF h(3)] h(4) assms(2) by simp
    then show ?thesis using s h(1,2) by - (rule tail_ok [where f' = f'], simp_all)
  next
    assume h: "k = Goto_cleanup" "libs f' = libs f @ [(Sysroot_cleanup, Failed)]"
      "status f' = EXIT_FAILURE" "ptrs f' = ptrs f"
    have "fst (leave (k, f')) = exit_after Sysroot_cleanup"
      using h assms(2) by (simp add: leave_outcome)
    then show ?thesis using s h(1,2) by - (rule tail_fail [where f' = f' and k = k], simp_all)
  qed
qed

lemma tail_deploy:
  assumes "good f" "ptrs f = (Ref a, Ref b, Ref commit, Ref d, Ref key)"
  shows "ran [Stage_tree osname commit key, Sysroot_cleanup] f
           (leave (run_steps [step_deploy L, step_prune L] f))"
proof -
  obtain k f' where s: "step_deploy L f = (k, f')" by fastforce
  from step_deploy_cases [OF s assms] show ?thesis
  proof (elim disjE conjE)
    assume h: "k = Next" "libs f' = libs f @ [(Stage_tree osname commit key, Succeeded)]"
      "good f'" "ptrs f' = ptrs f"
    have "ran [Sysroot_cleanup] f' (leave (run_steps [step_prune L] f'))"
      using h(4) assms(2) by (intro tail_prune [OF h(3)]) simp
    then show ?thesis using s h(1,2) by - (rule tail_ok [where f' = f'], simp_all)
  next
    assume h: "k = Goto_cleanup" "libs f' = libs f @ [(Stage_tree osname commit key, Failed)]"
      "status f' = EXIT_FAILURE" "ptrs f' = ptrs f"
    have "fst (leave (k, f')) = exit_after (Stage_tree osname commit key)"
      using h assms(2) by (simp add: leave_outcome)
    then show ?thesis using s h(1,2) by - (rule tail_fail [where f' = f' and k = k], simp_all)
  qed
qed

lemma tail_origin:
  assumes "good f" "ptrs f = (Ref a, Ref b, Ref commit, Ref d, Indeterminate)"
  shows "ran [Origin_new refspec, Stage_tree osname commit refspec, Sysroot_cleanup] f
           (leave (run_steps [step_origin L, step_deploy L, step_prune L] f))"
proof -
  obtain k f' where s: "step_origin L f = (k, f')" by fastforce
  from step_origin_cases [OF s assms] show ?thesis
  proof (elim disjE conjE)
    assume h: "k = Next" "libs f' = libs f @ [(Origin_new refspec, Succeeded)]" "good f'"
      "ptrs f' = (Ref a, Ref b, Ref commit, Ref d, Ref refspec)"
    have "ran [Stage_tree osname commit refspec, Sysroot_cleanup] f'
            (leave (run_steps [step_deploy L, step_prune L] f'))"
      by (rule tail_deploy [OF h(3) h(4)])
    then show ?thesis using s h(1,2) by - (rule tail_ok [where f' = f'], simp_all)
  next
    assume h: "k = Stop Null_error_read" "libs f' = libs f @ [(Origin_new refspec, Failed)]"
    have "fst (leave (k, f')) = exit_after (Origin_new refspec)"
      using h by (simp add: leave_def)
    then show ?thesis using s h by - (rule tail_fail [where f' = f' and k = k], simp_all)
  qed
qed

lemma tail_load:
  assumes "good f" "ptrs f = (Ref a, Ref b, Ref commit, Indeterminate, Indeterminate)"
  shows "ran [Sysroot_new, Sysroot_load, Origin_new refspec, Stage_tree osname commit refspec,
              Sysroot_cleanup] f
           (leave (run_steps [step_load L, step_origin L, step_deploy L, step_prune L] f))"
proof -
  obtain k f' where s: "step_load L f = (k, f')" by fastforce
  let ?rest = "[step_origin L, step_deploy L, step_prune L]"
  from step_load_cases [OF s assms] show ?thesis
  proof (elim disjE conjE)
    assume h: "k = Next" "libs f' = libs f @ [(Sysroot_new, Succeeded), (Sysroot_load, Succeeded)]"
      "good f'" "ptrs f' = (Ref a, Ref b, Ref commit, Ref (), Indeterminate)"
    from tail_origin [OF h(3) h(4), of L] obtain evs where
      "libs (snd (leave (run_steps ?rest f'))) = libs f' @ evs"
      "follows [Origin_new refspec, Stage_tree osname commit refspec, Sysroot_cleanup] evs
         (fst (leave (run_steps ?rest f')))"
      by (auto simp: ran_def)
    then show ?thesis using s h(1) h(2) by (simp add: ran_def run_steps.simps(2))
  next
    assume h: "k = Goto_cleanup"
      "libs f' = libs f @ [(Sysroot_new, Succeeded), (Sysroot_load, Failed)]"
      "ptrs f' = (Ref a, Ref b, Ref commit, Ref (), Indeterminate)"
    then show ?thesis using s by (simp add: ran_def leave_libs leave_outcome run_steps.simps(2))
  qed
qed

lemma tail_resolve:
  assumes "good f" "ptrs f = (Ref a, Ref b, Indeterminate, Indeterminate, Indeterminate)"
  shows "ran [Resolve_rev ref, Sysroot_new, Sysroot_load, Origin_new refspec,
              Stage_tree osname (commit_at L (world f)) refspec, Sysroot_cleanup] f
           (leave (run_steps [step_resolve L, step_load L, step_origin L, step_deploy L,
              step_prune L] f))"
proof -
  obtain k f' where s: "step_resolve L f = (k, f')" by fastforce
  from step_resolve_cases [OF s assms] show ?thesis
  proof (elim disjE conjE)
    assume h: "k = Next" "libs f' = libs f @ [(Resolve_rev ref, Succeeded)]" "good f'"
      "ptrs f' = (Ref a, Ref b, Ref (commit_at L (world f)), Indeterminate, Indeterminate)"
    have "ran [Sysroot_new, Sysroot_load, Origin_new refspec,
              Stage_tree osname (commit_at L (world f)) refspec, Sysroot_cleanup] f'
            (leave (run_steps [step_load L, step_origin L, step_deploy L, step_prune L] f'))"
      by (rule tail_load [OF h(3) h(4)])
    then show ?thesis using s h(1,2) by - (rule tail_ok [where f' = f'], simp_all)
  next
    assume h: "k = Goto_cleanup" "libs f' = libs f @ [(Resolve_rev ref, Failed)]"
      "status f' = EXIT_FAILURE" "ptrs f' = (Ref a, Ref b, Null, Indeterminate, Indeterminate)"
    have "fst (leave (k, f')) = exit_after (Resolve_rev ref)"
      using h by (simp add: leave_outcome)
    then show ?thesis using s h(1,2) by - (rule tail_fail [where f' = f' and k = k], simp_all)
  qed
qed

lemma tail_pull:
  assumes "good f" "ptrs f = (Ref a, Ref b, Indeterminate, Indeterminate, Indeterminate)"
  shows "ran [Pull remote_name refs, Resolve_rev ref, Sysroot_new, Sysroot_load,
              Origin_new refspec, Stage_tree osname (commit_at L (after_pull L (world f))) refspec,
              Sysroot_cleanup] f
           (leave (run_steps [step_pull L, step_resolve L, step_load L, step_origin L,
              step_deploy L, step_prune L] f))"
proof -
  obtain k f' where s: "step_pull L f = (k, f')" by fastforce
  from step_pull_cases [OF s assms(1)] show ?thesis
  proof (elim disjE conjE)
    assume h: "k = Next" "libs f' = libs f @ [(Pull remote_name refs, Succeeded)]" "good f'"
      "ptrs f' = ptrs f" "world f' = after_pull L (world f)"
    from h(4) assms(2) have "ptrs f' = (Ref a, Ref b, Indeterminate, Indeterminate, Indeterminate)"
      by simp
    from tail_resolve [OF h(3) this, of L] h(5) have
      "ran [Resolve_rev ref, Sysroot_new, Sysroot_load, Origin_new refspec,
          Stage_tree osname (commit_at L (after_pull L (world f))) refspec, Sysroot_cleanup] f'
         (leave (run_steps [step_resolve L, step_load L, step_origin L, step_deploy L,
            step_prune L] f'))"
      by simp
    then show ?thesis using s h(1,2) by - (rule tail_ok [where f' = f'], simp_all)
  next
    assume h: "k = Goto_cleanup" "libs f' = libs f @ [(Pull remote_name refs, Failed)]"
      "status f' = EXIT_FAILURE" "ptrs f' = ptrs f"
    have "fst (leave (k, f')) = exit_after (Pull remote_name refs)"
      using h assms(2) by (simp add: leave_outcome)
    then show ?thesis using s h(1,2) by - (rule tail_fail [where f' = f' and k = k], simp_all)
  qed
qed

lemma tail_ensure:
  assumes "good f"
    and "ptrs f = (Ref a, Ref (listed_names L (world f)), Indeterminate, Indeterminate,
           Indeterminate)"
  shows "ran (after_list (remote_name \<notin> set (listed_names L (world f)))
                (commit_at L (after_pull L (after_ensure L (world f))))) f
           (leave (run_steps [step_ensure L remote_name remote_url, step_pull L, step_resolve L,
              step_load L, step_origin L, step_deploy L, step_prune L] f))"
proof -
  obtain k f' where s: "step_ensure L remote_name remote_url f = (k, f')" by fastforce
  let ?rest = "[step_pull L, step_resolve L, step_load L, step_origin L, step_deploy L,
    step_prune L]"
  let ?commit = "commit_at L (after_pull L (after_ensure L (world f)))"
  have rest: "ran (after_list False ?commit) f' (leave (run_steps ?rest f'))"
    if "good f'" "ptrs f' = ptrs f" "world f' = after_ensure L (world f)"
    using tail_pull [OF that(1), of a "listed_names L (world f)" L] that(2,3) assms(2)
    by (simp add: after_list_def)
  from step_ensure_cases [OF s assms] show ?thesis
  proof (elim disjE conjE)
    assume h: "remote_name \<in> set (listed_names L (world f))" "k = Next" "libs f' = libs f"
      "good f'" "ptrs f' = ptrs f" "world f' = world f"
    have "world f' = after_ensure L (world f)"
      using h(1,6) by (simp add: after_ensure_def)
    from rest [OF h(4,5) this] show ?thesis
      using s h(1,2,3) by (simp add: ran_def run_steps.simps(2))
  next
    assume h: "remote_name \<notin> set (listed_names L (world f))" "k = Next"
      "libs f' = libs f @ [(Remote_add remote_name remote_url, Succeeded)]"
      "good f'" "ptrs f' = ptrs f"
      "world f' = snd (repo_remote_add L remote_name remote_url (world f))"
    have "world f' = after_ensure L (world f)"
      using h(1,6) by (simp add: after_ensure_def)
    from rest [OF h(4,5) this] have "ran (after_list True ?commit) f
      (leave (run_steps (step_ensure L remote_name remote_url # ?rest) f))"
      using s h(2,3) unfolding after_list_def
      by - (simp, rule tail_ok [where f' = f'], simp_all)
    then show ?thesis using h(1) by simp
  next
    assume h: "remote_name \<notin> set (listed_names L (world f))" "k = Goto_cleanup"
      "libs f' = libs f @ [(Remote_add remote_name remote_url, Failed)]"
      "status f' = EXIT_FAILURE" "ptrs f' = ptrs f"
    have "fst (leave (k, f')) = exit_after (Remote_add remote_name remote_url)"
      using h assms(2) by (simp add: leave_outcome)
    then have "ran (after_list True ?commit) f
      (leave (run_steps (step_ensure L remote_name remote_url # ?rest) f))"
      using s h(2,3) unfolding after_list_def
      by - (simp, rule tail_fail [where f' = f' and k = k], simp_all)
    then show ?thesis using h(1) by simp
  qed
qed

lemma tail_list:
  assumes "good f" "ptrs f = (Ref a, Indeterminate, Indeterminate, Indeterminate, Indeterminate)"
  shows "ran (Remote_list # after_list (remote_name \<notin> set (listed_names L (world f)))
                (commit_at L (after_pull L (after_ensure L (world f))))) f
           (leave (run_steps [step_list L, step_ensure L remote_name remote_url, step_pull L,
              step_resolve L, step_load L, step_origin L, step_deploy L, step_prune L] f))"
proof -
  obtain k f' where s: "step_list L f = (k, f')" by fastforce
  from step_list_cases [OF s assms] show ?thesis
  proof (elim disjE conjE)
    assume h: "k = Next" "libs f' = libs f @ [(Remote_list, Succeeded)]" "good f'"
      "ptrs f' = (Ref a, Ref (listed_names L (world f)), Indeterminate, Indeterminate,
         Indeterminate)"
      "world f' = world f"
    from h(4,5) have "ptrs f' = (Ref a, Ref (listed_names L (world f')), Indeterminate,
        Indeterminate, Indeterminate)"
      by simp
    from tail_ensure [OF h(3) this] h(5) have
      "ran (after_list (remote_name \<notin> set (listed_names L (world f)))
              (commit_at L (after_pull L (after_ensure L (world f))))) f'
         (leave (run_steps [step_ensure L remote_name remote_url, step_pull L, step_resolve L,
            step_load L, step_origin L, step_deploy L, step_prune L] f'))"
      by simp
    then show ?thesis using s h(1,2) by - (rule tail_ok [where f' = f'], simp_all)
  next
    assume h: "k = Goto_cleanup" "libs f' = libs f @ [(Remote_list, Failed)]"
      "status f' = EXIT_FAILURE"
      "ptrs f' = (Ref a, Null, Indeterminate, Indeterminate, Indeterminate)"
    have "fst (leave (k, f')) = exit_after Remote_list"
      using h by (simp add: leave_outcome)
    then show ?thesis using s h(1,2) by - (rule tail_fail [where f' = f' and k = k], simp_all)
  qed
qed

lemma good_entry: "good (entry w)"
  by (simp add: good_def entry_def)

lemma ptrs_entry:
  "ptrs (entry w) = (Null, Indeterminate, Indeterminate, Indeterminate, Indeterminate)"
  by (simp add: ptrs_def entry_def)

lemma libs_entry: "libs (entry w) = []"
  by (simp add: libs_def entry_def)

lemma world_entry: "world (entry w) = w"
  by (simp add: entry_def)

lemma main_follows_plan:
  "follows (plan_of L w) (libs (snd (main L w))) (fst (main L w))"
proof -
  obtain k f' where s: "step_open L (entry w) = (k, f')" by fastforce
  let ?rest = "[step_list L, step_ensure L remote_name remote_url, step_pull L,
    step_resolve L, step_load L, step_origin L, step_deploy L, step_prune L]"
  have plan: "plan_of L w = Repo_open repo_path # Remote_list #
      after_list (remote_name \<notin> set (listed_names L (opened L w)))
        (commit_at L (after_pull L (after_ensure L (opened L w))))"
    by (simp add: plan_of_def transaction_plan_def after_list_def needs_add_def resolved_def)
  have "ran (plan_of L w) (entry w) (main L w)"
    using step_open_cases [OF s good_entry ptrs_entry]
  proof (elim disjE conjE)
    assume h: "k = Next" "libs f' = libs (entry w) @ [(Repo_open repo_path, Succeeded)]" "good f'"
      "ptrs f' = (Ref (), Indeterminate, Indeterminate, Indeterminate, Indeterminate)"
      "world f' = opened L (world (entry w))"
    from tail_list [OF h(3,4), of L] h(5) have
      "ran (Remote_list # after_list (remote_name \<notin> set (listed_names L (opened L w)))
              (commit_at L (after_pull L (after_ensure L (opened L w))))) f'
         (leave (run_steps ?rest f'))"
      by (simp add: world_entry)
    then show ?thesis using s h(1,2) unfolding main_def body_def plan
      by - (rule tail_ok [where f' = f'], simp_all)
  next
    assume h: "k = Goto_cleanup" "libs f' = libs (entry w) @ [(Repo_open repo_path, Failed)]"
      "status f' = EXIT_FAILURE"
      "ptrs f' = (Null, Indeterminate, Indeterminate, Indeterminate, Indeterminate)"
    have "fst (leave (k, f')) = exit_after (Repo_open repo_path)"
      using h by (simp add: leave_outcome)
    then show ?thesis using s h(1,2) unfolding main_def body_def plan
      by - (rule tail_fail [where f' = f' and k = k], simp_all)
  qed
  then show ?thesis by (simp add: ran_def libs_entry)
qed

lemma main_follows:
  "\<exists>with_add commit.
     follows (transaction_plan with_add commit) (libs (snd (main L w))) (fst (main L w))"
  using main_follows_plan [of L w] unfolding plan_of_def by blast

subsection \<open>Consequences of following the plan\<close>

lemma follows_Cons:
  "follows (c # p) evs out \<longleftrightarrow>
     (evs = [(c, Failed)] \<and> out = exit_after c) \<or>
     (\<exists>es. evs = (c, Succeeded) # es \<and> follows p es out)"
proof (cases evs)
  case Nil
  then show ?thesis by simp
next
  case (Cons e es)
  obtain c' r where "e = (c', r)" by fastforce
  then show ?thesis using Cons by (cases r) auto
qed

lemma mem_lib_events: "(c, r) \<in> set (lib_events es) \<longleftrightarrow> Lib c r \<in> set es"
  by (induction es rule: lib_events.induct) auto

lemma print_remotes_no_lib: "Lib c r \<notin> set (print_remotes i rs)"
  by (induction rs arbitrary: i) simp_all

lemma run_steps_rel:
  assumes "\<And>f. Q f f" and "\<And>f g h. Q f g \<Longrightarrow> Q g h \<Longrightarrow> Q f h"
    and "\<And>s f. s \<in> set ss \<Longrightarrow> Q f (snd (s f))"
  shows "Q f (snd (run_steps ss f))"
  using assms(3)
proof (induction ss arbitrary: f)
  case Nil
  then show ?case by (simp add: assms(1))
next
  case (Cons s ss)
  obtain k f' where s: "s f = (k, f')" by fastforce
  have one: "Q f f'" using Cons.prems [of s f] s by simp
  show ?case
  proof (cases k)
    case Next
    have "Q f' (snd (run_steps ss f'))" using Cons.IH Cons.prems by simp
    then show ?thesis using s Next one assms(2) by (auto simp: run_steps.simps(2))
  qed (use s one in \<open>simp_all add: run_steps.simps(2)\<close>)
qed

lemma run_steps_append:
  "run_steps (xs @ ys) f =
     (case run_steps xs f of (Next, f') \<Rightarrow> run_steps ys f' | (k, f') \<Rightarrow> (k, f'))"
proof (induction xs arbitrary: f)
  case Nil
  then show ?case by simp
next
  case (Cons s xs)
  obtain k f' where "s f = (k, f')" by fastforce
  then show ?case using Cons.IH [of f'] by (cases k) (simp_all add: run_steps.simps(2))
qed

lemma quiet_refl: "extends no_boot_calls f f"
  by (simp add: extends_def no_boot_calls_def)

lemma quiet_trans:
  "extends no_boot_calls f g \<Longrightarrow> extends no_boot_calls g h \<Longrightarrow> extends no_boot_calls f h"
  unfolding extends_def no_boot_calls_def by (elim exE conjE) (simp, blast)

lemma quiet_open: "extends no_boot_calls f (snd (step_open L f))"
  unfolding extends_def step_open_def
  by (auto simp: wrapper_defs no_boot_calls_def boot_op_def split: prod.splits sum.splits)

lemma quiet_list: "extends no_boot_calls f (snd (step_list L f))"
  unfolding extends_def step_list_def
  by (auto simp: wrapper_defs no_boot_calls_def boot_op_def print_remotes_no_lib
      split: prod.splits sum.splits option.splits)

lemma quiet_ensure: "extends no_boot_calls f (snd (step_ensure L name url f))"
  unfolding extends_def step_ensure_def add_or_fail_def
  by (auto simp: wrapper_defs no_boot_calls_def boot_op_def split: prod.splits sum.splits ptr.splits)

lemma quiet_pull: "extends no_boot_calls f (snd (step_pull L f))"
  unfolding extends_def step_pull_def
  by (auto simp: wrapper_defs no_boot_calls_def boot_op_def split: prod.splits sum.splits)

lemma quiet_resolve: "extends no_boot_calls f (snd (step_resolve L f))"
  unfolding extends_def step_resolve_def
  by (auto simp: wrapper_defs no_boot_calls_def boot_op_def split: prod.splits sum.splits)

lemma quiet_load: "extends no_boot_calls f (snd (step_load L f))"
  unfolding extends_def step_load_def
  by (auto simp: wrapper_defs no_boot_calls_def boot_op_def split: prod.splits sum.splits)

lemma quiet_origin: "extends no_boot_calls f (snd (step_origin L f))"
  unfolding extends_def step_origin_def
  by (auto simp: wrapper_defs no_boot_calls_def boot_op_def Let_def
      split: prod.splits sum.splits ptr.splits option.splits)

lemma before_deploy:
  "no_boot_calls (trace (snd (run_steps [step_open L, step_list L,
      step_ensure L remote_name remote_url, step_pull L, step_resolve L, step_load L,
      step_origin L] (entry w))))"
proof -
  have "extends no_boot_calls (entry w) (snd (run_steps [step_open L, step_list L,
      step_ensure L remote_name remote_url, step_pull L, step_resolve L, step_load L,
      step_origin L] (entry w)))"
    by (rule run_steps_rel [where Q = "extends no_boot_calls"])
       (auto simp: quiet_refl quiet_open quiet_list quiet_ensure quiet_pull quiet_resolve
          quiet_load quiet_origin elim: quiet_trans)
  then show ?thesis by (simp add: extends_def entry_def)
qed

lemma tidies_refl: "tidies f f"
  by (simp add: tidies_def extends_def)

lemma tidies_trans: "tidies f g \<Longrightarrow> tidies g h \<Longrightarrow> tidies f h"
  unfolding tidies_def extends_def by (elim exE conjE) simp

lemma tidies_cleanup: "s \<in> set cleanup \<Longrightarrow> tidies f (snd (s f))"
  unfolding tidies_def extends_def cleanup_def
  by (auto simp: clear_error_def release_def report_def emit_def split: ptr.splits)

lemma leave_tidies: "tidies f (snd (leave (k, f)))"
proof -
  have "tidies f (snd (run_steps cleanup f))"
    by (rule run_steps_rel [where Q = tidies])
       (auto simp: tidies_refl tidies_cleanup elim: tidies_trans)
  then show ?thesis
    by (cases k; cases "run_steps cleanup f"; cases "fst (run_steps cleanup f)")
       (auto simp: leave_def tidies_refl)
qed

lemma leave_last:
  assumes "fst (leave (k, f)) = Returned n" "n \<noteq> EXIT_SUCCESS"
  shows "last (trace (snd (leave (k, f)))) = Err (line ''Update failed'')"
proof (cases k)
  case (Stop u)
  then show ?thesis using assms by (simp add: leave_def)
next
  case Next
  then show ?thesis using assms unfolding leave_def cleanup_def
    by (simp add: run_clear_error run_release run_report report_def emit_def split: ptr.splits if_splits)
next
  case Goto_cleanup
  then show ?thesis using assms unfolding leave_def cleanup_def
    by (simp add: run_clear_error run_release run_report report_def emit_def split: ptr.splits if_splits)
qed

lemma step_deploy_next:
  assumes "step_deploy L f = (Next, f')"
  shows "\<exists>commit key. sysroot_stage_tree_with_options L osname commit key (world f)
           = (Inr (), world f') \<and>
         trace f' = trace f @ [Lib (Stage_tree osname commit key) Succeeded, deployed_note commit]"
  using assms unfolding step_deploy_def
  by (auto simp: wrapper_defs deployed_note_def split: ptr.splits prod.splits sum.splits option.splits)

lemma step_deploy_stops:
  assumes "step_deploy L f = (k, f')" "k \<noteq> Next"
  shows "Lib Sysroot_cleanup Failed \<in> set (trace f') \<longrightarrow> Lib Sysroot_cleanup Failed \<in> set (trace f)"
  using assms unfolding step_deploy_def
  by (auto simp: wrapper_defs split: ptr.splits prod.splits sum.splits option.splits)

lemma step_prune_result:
  assumes "step_prune L f = (k, f')"
  shows "(k = Next \<and> trace f' = trace f @ [Lib Sysroot_cleanup Succeeded,
            Out (line ''OSTree cleanup completed successfully.'')])
       \<or> (k = Goto_cleanup \<and> status f' = EXIT_FAILURE \<and>
           (\<exists>message. sysroot_cleanup L (world f) = (Inl message, world f') \<and>
              trace f' = trace f @ [Lib Sysroot_cleanup Failed, prune_note message]))"
  using assms unfolding step_prune_def
  by (auto simp: wrapper_defs prune_note_def split: prod.splits sum.splits)


lemma no_failed_prune_after_leave:
  assumes "Lib Sysroot_cleanup Failed \<in> set (trace (snd (leave (k, f))))"
  shows "Lib Sysroot_cleanup Failed \<in> set (trace f)"
proof -
  from leave_tidies [of f k] obtain post where
    "trace (snd (leave (k, f))) = trace f @ post" "lib_events post = []"
    by (auto simp: tidies_def extends_def)
  moreover have "Lib Sysroot_cleanup Failed \<notin> set post"
    using \<open>lib_events post = []\<close> mem_lib_events [of Sysroot_cleanup Failed post] by simp
  ultimately show ?thesis using assms by simp
qed

lemma failed_prune_path:
  assumes "Lib Sysroot_cleanup Failed \<in> set (trace (snd (main L w)))"
  shows "\<exists>f7 f8 f9. no_boot_calls (trace f7) \<and> step_deploy L f7 = (Next, f8) \<and>
           step_prune L f8 = (Goto_cleanup, f9) \<and> main L w = leave (Goto_cleanup, f9)"
proof -
  let ?first = "[step_open L, step_list L, step_ensure L remote_name remote_url, step_pull L,
    step_resolve L, step_load L, step_origin L]"
  have body: "body L = ?first @ [step_deploy L, step_prune L]"
    by (simp add: body_def)
  obtain k7 f7 where r7: "run_steps ?first (entry w) = (k7, f7)" by fastforce
  have q7: "no_boot_calls (trace f7)"
    using before_deploy [of L w] r7 by simp
  then have n7: "Lib Sysroot_cleanup Failed \<notin> set (trace f7)"
    by (auto simp: no_boot_calls_def boot_op_def)
  have k7: "k7 = Next"
  proof (rule ccontr)
    assume "k7 \<noteq> Next"
    then have "main L w = leave (k7, f7)"
      using r7 unfolding main_def body run_steps_append by (cases k7) simp_all
    then show False using assms n7 no_failed_prune_after_leave by metis
  qed
  obtain k8 f8 where r8: "step_deploy L f7 = (k8, f8)" by fastforce
  have k8: "k8 = Next"
  proof (rule ccontr)
    assume stop: "k8 \<noteq> Next"
    then have "main L w = leave (k8, f8)"
      using r7 k7 r8 unfolding main_def body run_steps_append
      by (cases k8) (simp_all add: run_steps.simps(2))
    then have "Lib Sysroot_cleanup Failed \<in> set (trace f8)"
      using assms no_failed_prune_after_leave by metis
    then show False using step_deploy_stops [OF r8 stop] n7 by simp
  qed
  from step_deploy_next [of L f7 f8] r8 k8 obtain commit key where
    t8: "trace f8 = trace f7 @ [Lib (Stage_tree osname commit key) Succeeded, deployed_note commit]"
    by auto
  have n8: "Lib Sysroot_cleanup Failed \<notin> set (trace f8)"
    using t8 n7 by (simp add: deployed_note_def)
  obtain k9 f9 where r9: "step_prune L f8 = (k9, f9)" by fastforce
  have m: "main L w = leave (k9, f9)"
    using r7 k7 r8 k8 r9 unfolding main_def body run_steps_append
    by (cases k9) (simp_all add: run_steps.simps(2))
  have "k9 = Goto_cleanup"
    using step_prune_result [OF r9]
  proof (elim disjE conjE exE)
    assume "k9 = Next"
      "trace f9 = trace f8 @ [Lib Sysroot_cleanup Succeeded,
         Out (line ''OSTree cleanup completed successfully.'')]"
    then have "Lib Sysroot_cleanup Failed \<notin> set (trace f9)" using n8 by simp
    then show ?thesis using assms m no_failed_prune_after_leave by metis
  qed
  then show ?thesis using q7 r8 k8 r9 m by blast
qed

lemma step_ensure_listing:
  assumes "remote_list f = listing L (world f)"
  shows "step_ensure L name url f =
     (if name \<in> set (listed_names L (world f))
      then (Next, emit (Out (line (''Remote '' @ quoted name @ '' already exists.''))) f)
      else add_or_fail L name url f)"
  using assms
  by (simp add: step_ensure_def listing_def listed_names_def remote_exists_iff split: option.splits)

lemma add_or_fail_accepted:
  assumes "repo_remote_add L name url (world f) = (Inr u, d')"
  shows "fst (add_or_fail L name url f) = Next"
    and "world (snd (add_or_fail L name url f)) = d'"
    and "libs (snd (add_or_fail L name url f)) = libs f @ [(Remote_add name url, Succeeded)]"
  using assms by (simp_all add: add_or_fail_def wrapper_defs libs_def)

lemma add_or_fail_rejected:
  assumes "repo_remote_add L name url (world f) = (Inl message, d')"
  shows "fst (add_or_fail L name url f) = Goto_cleanup"
    and "world (snd (add_or_fail L name url f)) = d'"
    and "status (snd (add_or_fail L name url f)) = EXIT_FAILURE"
    and "libs (snd (add_or_fail L name url f)) = libs f @ [(Remote_add name url, Failed)]"
    and "last (trace (snd (add_or_fail L name url f))) =
           Err (line (''Failed to add remote: '' @ message))"
  using assms by (simp_all add: add_or_fail_def wrapper_defs libs_def)

lemma ensure_listed:
  assumes "remote_list h = Ref rs" "name \<in> set rs"
  shows "\<exists>h'. step_ensure L name url h = (Next, h') \<and> world h' = world h \<and> libs h' = libs h"
  using assms by (simp add: step_ensure_def remote_exists_iff emit_def libs_def)

lemma stub_adds_one_name:
  "\<forall>d d'. name \<notin> set (listed_names stub d) \<and> repo_remote_add stub name url d = (Inr (), d') \<longrightarrow>
     count_list (listed_names stub d') name = 1"
  by (auto simp: stub_def listed_names_def count_list_0_iff split: if_splits)

lemma calls_carry_the_constants: "list_all fixed_call (map fst (libs (snd (main L w))))"
proof -
  obtain with_add c where
    "follows (transaction_plan with_add c) (libs (snd (main L w))) (fst (main L w))"
    using main_follows [of L w] by blast
  then show ?thesis
    unfolding transaction_plan_def
    by (cases with_add) (auto simp: follows_Cons refs_def)
qed

lemmas plan_defs = plan_of_def needs_add_def resolved_def opened_def listed_names_def
  after_ensure_def after_pull_def commit_at_def transaction_plan_def

section \<open>The claims\<close>

text \<open>
  C1. When a step before the staging step fails (opening the store, listing the remotes,
  adding the remote, pulling, resolving, loading the deployments or building the origin),
  the run makes no staging call and no pruning call on the sysroot: the boot environment
  is not touched.
\<close>

theorem failure_before_staging_makes_no_boot_call:
  assumes "(c, Failed) \<in> set (libs (snd (main L w)))" and "\<not> boot_op c"
  shows "list_all (\<lambda>e. \<not> boot_op (fst e)) (libs (snd (main L w)))"
proof -
  obtain with_add commit where
    "follows (transaction_plan with_add commit) (libs (snd (main L w))) (fst (main L w))"
    using main_follows [of L w] by blast
  then show ?thesis using assms
    unfolding transaction_plan_def
    by (cases with_add) (auto simp: follows_Cons boot_op_def)
qed

theorem failure_before_staging_makes_no_boot_call_witness:
  "(Pull remote_name refs, Failed) \<in> set (libs (snd (main pull_fails disk0))) \<and>
   \<not> boot_op (Pull remote_name refs) \<and>
   list_all (\<lambda>e. \<not> boot_op (fst e)) (libs (snd (main pull_fails disk0))) \<and>
   staged (world (snd (main pull_fails disk0))) = []"
proof -
  have failed: "(Pull remote_name refs, Failed) \<in> set (libs (snd (main pull_fails disk0)))"
    by (simp add: run_defs stub_defs)
  have early: "\<not> boot_op (Pull remote_name refs)"
    by (simp add: boot_op_def)
  have "staged (world (snd (main pull_fails disk0))) = []"
    by (simp add: run_defs stub_defs)
  then show ?thesis
    using failure_before_staging_makes_no_boot_call [OF failed early] failed early by simp
qed

text \<open>
  C2, as the specification states it: when staging succeeds and the prune step then
  fails, the update is still reported as a success. The program does otherwise: with a
  library whose prune call fails after a successful staging, it returns \<open>EXIT_FAILURE\<close>
  and its last line is "Update failed".
\<close>

theorem prune_failure_is_not_reported_as_success:
  "(Stage_tree osname ''c0ffee'' refspec, Succeeded) \<in> set (libs (snd (main prune_fails disk0))) \<and>
   (Sysroot_cleanup, Failed) \<in> set (libs (snd (main prune_fails disk0))) \<and>
   fst (main prune_fails disk0) = Returned EXIT_FAILURE \<and>
   EXIT_FAILURE \<noteq> EXIT_SUCCESS \<and>
   last (trace (snd (main prune_fails disk0))) = Err (line ''Update failed'')"
  by (simp add: run_defs stub_defs)

text \<open>
  C2, amended: when staging succeeds and the prune step then fails, the run returns
  \<open>EXIT_FAILURE\<close>. Its trace holds, one after the other, the successful staging call, the
  line that reports the staged commit, the failed prune call (made on the world the
  staging call left) and the diagnostic with the very message the prune call returned;
  no library call follows, so the staged deployment is not reverted and the world is the
  one the prune call left; the last line printed is "Update failed".
\<close>

theorem prune_failure_fails_the_run_and_keeps_the_stage:
  assumes "(Stage_tree os commit key, Succeeded) \<in> set (libs (snd (main L w)))"
    and "(Sysroot_cleanup, Failed) \<in> set (libs (snd (main L w)))"
  shows "fst (main L w) = Returned EXIT_FAILURE \<and>
         (\<exists>message before staged_world pre post.
            sysroot_stage_tree_with_options L os commit key before = (Inr (), staged_world) \<and>
            sysroot_cleanup L staged_world = (Inl message, world (snd (main L w))) \<and>
            trace (snd (main L w)) =
              pre @ [Lib (Stage_tree os commit key) Succeeded, deployed_note commit,
                     Lib Sysroot_cleanup Failed, prune_note message] @ post \<and>
            lib_events post = []) \<and>
         last (trace (snd (main L w))) = Err (line ''Update failed'') \<and>
         last (libs (snd (main L w))) = (Sysroot_cleanup, Failed)"
proof -
  have "Lib Sysroot_cleanup Failed \<in> set (trace (snd (main L w)))"
    using assms(2) by (simp add: libs_def mem_lib_events)
  from failed_prune_path [OF this] obtain f7 f8 f9 where
    q7: "no_boot_calls (trace f7)" and r8: "step_deploy L f7 = (Next, f8)"
    and r9: "step_prune L f8 = (Goto_cleanup, f9)" and m: "main L w = leave (Goto_cleanup, f9)"
    by blast
  from step_deploy_next [OF r8] obtain commit' key' where
    st: "sysroot_stage_tree_with_options L osname commit' key' (world f7) = (Inr (), world f8)"
    and t8: "trace f8 = trace f7 @ [Lib (Stage_tree osname commit' key') Succeeded,
      deployed_note commit']"
    by blast
  from step_prune_result [OF r9] obtain message where
    pr: "sysroot_cleanup L (world f8) = (Inl message, world f9)"
    and t9: "trace f9 = trace f8 @ [Lib Sysroot_cleanup Failed, prune_note message]"
    and st9: "status f9 = EXIT_FAILURE"
    by auto
  from leave_tidies [of f9 Goto_cleanup] obtain post where
    w: "world (snd (main L w)) = world f9"
    and t: "trace (snd (main L w)) = trace f9 @ post" and p: "lib_events post = []"
    using m by (auto simp: tidies_def extends_def)
  have all: "trace (snd (main L w)) = trace f7 @ [Lib (Stage_tree osname commit' key') Succeeded,
      deployed_note commit', Lib Sysroot_cleanup Failed, prune_note message] @ post"
    using t t9 t8 by simp
  have "Lib (Stage_tree os commit key) Succeeded \<in> set (trace (snd (main L w)))"
    using assms(1) by (simp add: libs_def mem_lib_events)
  moreover have "Lib (Stage_tree os commit key) Succeeded \<notin> set (trace f7)"
    using q7 by (auto simp: no_boot_calls_def boot_op_def)
  moreover have "Lib (Stage_tree os commit key) Succeeded \<notin> set post"
    using p mem_lib_events [of "Stage_tree os commit key" Succeeded post] by simp
  ultimately have same: "os = osname" "commit = commit'" "key = key'"
    using all by (auto simp: deployed_note_def prune_note_def)
  have libs: "libs (snd (main L w)) = libs f7 @ [(Stage_tree os commit key, Succeeded),
      (Sysroot_cleanup, Failed)]"
    using all p same by (simp add: libs_def deployed_note_def prune_note_def)
  obtain with_add c where
    "follows (transaction_plan with_add c) (libs (snd (main L w))) (fst (main L w))"
    using main_follows [of L w] by blast
  then have out: "fst (main L w) = Returned EXIT_FAILURE"
    using assms(2) unfolding transaction_plan_def
    by (cases with_add) (auto simp: follows_Cons)
  have "last (trace (snd (main L w))) = Err (line ''Update failed'')"
    using out leave_last [of Goto_cleanup f9 EXIT_FAILURE] m
    by (simp add: EXIT_FAILURE_def EXIT_SUCCESS_def)
  moreover have "\<exists>message before staged_world pre post.
      sysroot_stage_tree_with_options L os commit key before = (Inr (), staged_world) \<and>
      sysroot_cleanup L staged_world = (Inl message, world (snd (main L w))) \<and>
      trace (snd (main L w)) =
        pre @ [Lib (Stage_tree os commit key) Succeeded, deployed_note commit,
               Lib Sysroot_cleanup Failed, prune_note message] @ post \<and>
      lib_events post = []"
  proof (intro exI conjI)
    show "sysroot_stage_tree_with_options L os commit key (world f7) = (Inr (), world f8)"
      using st same by simp
    show "sysroot_cleanup L (world f8) = (Inl message, world (snd (main L w)))"
      using pr w by simp
    show "trace (snd (main L w)) =
        trace f7 @ [Lib (Stage_tree os commit key) Succeeded, deployed_note commit,
               Lib Sysroot_cleanup Failed, prune_note message] @ post"
      using all same by simp
    show "lib_events post = []" by (rule p)
  qed
  ultimately show ?thesis using out libs by simp
qed

theorem prune_failure_fails_the_run_and_keeps_the_stage_witness:
  "(Stage_tree osname ''c0ffee'' refspec, Succeeded) \<in> set (libs (snd (main prune_fails disk0))) \<and>
   (Sysroot_cleanup, Failed) \<in> set (libs (snd (main prune_fails disk0))) \<and>
   fst (main prune_fails disk0) = Returned EXIT_FAILURE \<and>
   deployed_note ''c0ffee'' \<in> set (trace (snd (main prune_fails disk0))) \<and>
   prune_note ''Device or resource busy'' \<in> set (trace (snd (main prune_fails disk0))) \<and>
   last (trace (snd (main prune_fails disk0))) = Err (line ''Update failed'') \<and>
   last (libs (snd (main prune_fails disk0))) = (Sysroot_cleanup, Failed) \<and>
   staged (world (snd (main prune_fails disk0))) = [''c0ffee'']"
proof -
  have stage: "(Stage_tree osname ''c0ffee'' refspec, Succeeded)
      \<in> set (libs (snd (main prune_fails disk0)))"
    by (simp add: run_defs stub_defs)
  have prune: "(Sysroot_cleanup, Failed) \<in> set (libs (snd (main prune_fails disk0)))"
    by (simp add: run_defs stub_defs)
  have kept: "staged (world (snd (main prune_fails disk0))) = [''c0ffee'']"
    by (simp add: run_defs stub_defs)
  note run = prune_failure_fails_the_run_and_keeps_the_stage [OF stage prune]
  from run obtain message staged_world pre post where
    answer: "sysroot_cleanup prune_fails staged_world
      = (Inl message, world (snd (main prune_fails disk0)))"
    and order: "trace (snd (main prune_fails disk0)) =
      pre @ [Lib (Stage_tree osname ''c0ffee'' refspec) Succeeded, deployed_note ''c0ffee'',
             Lib Sysroot_cleanup Failed, prune_note message] @ post"
    by blast
  have "message = ''Device or resource busy''"
    using answer by (simp add: prune_fails_def stub_def)
  then have "deployed_note ''c0ffee'' \<in> set (trace (snd (main prune_fails disk0)))"
    "prune_note ''Device or resource busy'' \<in> set (trace (snd (main prune_fails disk0)))"
    using order by simp_all
  then show ?thesis using run stage prune kept by simp
qed

text \<open>
  C3. \<open>create_origin\<close> is to produce \<open>remote:ref\<close>. It passes \<open>sizeof(refspec_str)\<close> to
  \<open>g_snprintf\<close> where \<open>refspec_str\<close> is a \<open>char *\<close> parameter, so only the first seven
  characters are written: \<open>acme:st\<close> for the specification's example, \<open>linuxmi\<close> for the
  constants of \<open>main\<close>. It can also fail: it returns \<open>FALSE\<close> when the library returns no
  key file.
\<close>

theorem create_origin_truncates_the_refspec:
  "fst (fst (create_origin L ''acme'' ''stable/amd64'' s)) = ''acme:st'' \<and>
   fst (fst (create_origin L remote_name ref s)) = ''linuxmi'' \<and>
   ''linuxmi'' \<noteq> remote_name @ '':'' @ ref \<and>
   snd (fst (create_origin no_origin remote_name ref (entry disk0))) = Null"
  by (simp add: create_origin_def g_snprintf_def sizeof_char_ptr_def remote_name_def ref_def
      no_origin_def stub_def entry_def Let_def split: prod.splits)

text \<open>
  C4, as the specification states it: a pull with no refs fails with \<open>NoRefsRequested\<close>
  and does not reach the transfer primitive. \<open>pull_remote\<close> has no such check: with an
  empty list it calls the library, and succeeds when the library does.
\<close>

theorem pull_remote_with_no_refs_calls_the_library:
  "fst (pull_remote stub ''linuxmint'' [] (entry disk0)) = Inr () \<and>
   trace (snd (pull_remote stub ''linuxmint'' [] (entry disk0))) =
     [Lib (Pull ''linuxmint'' []) Succeeded]"
  by (simp add: pull_remote_def invoke_def emit_def verdict_def stub_def entry_def)

text \<open>
  C4, amended: \<open>pull_remote\<close> does not inspect the refs. Whatever the list is, it makes
  exactly one call of the transfer primitive with that list and returns what the
  primitive returned.
\<close>

theorem pull_remote_passes_the_refs_through:
  "pull_remote L name rs s =
     (fst (repo_pull_with_options L name rs (world s)),
      s\<lparr>world := snd (repo_pull_with_options L name rs (world s)),
        trace := trace s @
          [Lib (Pull name rs) (verdict (fst (repo_pull_with_options L name rs (world s))))]\<rparr>)"
  by (simp add: pull_remote_def invoke_def emit_def split: prod.splits)

text \<open>
  C5. The calls of a run are an initial part of the plan its library answers call for:
  open and list, the addition exactly when the remote's name is not among the names the
  listing returned, pull, resolve, load, build-origin, the staging of the commit that the
  resolve call returned, prune; in that order and with none left out. Every call but the
  last one made has succeeded, and a run whose calls all succeed carries out the whole
  plan. In particular a resolve call is made only after a successful pull, a staging
  call only after a successful resolve and for the resolved commit, and the pull is
  reached only with the remote listed or successfully added.
\<close>

theorem calls_follow_the_plan:
  "prefix (map fst (libs (snd (main L w)))) (plan_of L w) \<and>
   (list_all (\<lambda>e. snd e = Succeeded) (libs (snd (main L w))) \<longrightarrow>
      map fst (libs (snd (main L w))) = plan_of L w) \<and>
   list_all (\<lambda>e. snd e = Succeeded) (butlast (libs (snd (main L w)))) \<and>
   (\<forall>x r. (Resolve_rev x, r) \<in> set (libs (snd (main L w))) \<longrightarrow>
      (Pull remote_name refs, Succeeded) \<in> set (libs (snd (main L w)))) \<and>
   (\<forall>os c k r. (Stage_tree os c k, r) \<in> set (libs (snd (main L w))) \<longrightarrow>
      (Resolve_rev ref, Succeeded) \<in> set (libs (snd (main L w))) \<and> c = resolved L w) \<and>
   (\<forall>name url r. (Remote_add name url, r) \<in> set (libs (snd (main L w))) \<longrightarrow> needs_add L w) \<and>
   (\<forall>r. (Pull remote_name refs, r) \<in> set (libs (snd (main L w))) \<and> needs_add L w \<longrightarrow>
      (Remote_add remote_name remote_url, Succeeded) \<in> set (libs (snd (main L w))))"
proof -
  have "follows (plan_of L w) (libs (snd (main L w))) (fst (main L w))"
    by (rule main_follows_plan)
  then show ?thesis
    unfolding plan_of_def transaction_plan_def
    by (cases "needs_add L w") (auto simp: follows_Cons)
qed


theorem calls_follow_the_plan_witness:
  "list_all (\<lambda>e. snd e = Succeeded) (libs (snd (main stub disk0))) \<and>
   (Stage_tree osname ''c0ffee'' refspec, Succeeded) \<in> set (libs (snd (main stub disk0))) \<and>
   (Resolve_rev ref, Succeeded) \<in> set (libs (snd (main stub disk0))) \<and>
   (Pull remote_name refs, Succeeded) \<in> set (libs (snd (main stub disk0))) \<and>
   needs_add stub disk0 \<and>
   (Remote_add remote_name remote_url, Succeeded) \<in> set (libs (snd (main stub disk0))) \<and>
   resolved stub disk0 = ''c0ffee'' \<and>
   map fst (libs (snd (main stub disk0))) = plan_of stub disk0 \<and>
   plan_of stub disk0 = transaction_plan True ''c0ffee''"
proof -
  have ok: "list_all (\<lambda>e. snd e = Succeeded) (libs (snd (main stub disk0)))"
    by (simp add: run_defs stub_defs)
  have stage: "(Stage_tree osname ''c0ffee'' refspec, Succeeded)
      \<in> set (libs (snd (main stub disk0)))"
    by (simp add: run_defs stub_defs)
  have pull: "(Pull remote_name refs, Succeeded) \<in> set (libs (snd (main stub disk0)))"
    by (simp add: run_defs stub_defs)
  have unlisted: "needs_add stub disk0"
    by (simp add: plan_defs stub_defs const_defs)
  have plan: "plan_of stub disk0 = transaction_plan True ''c0ffee''"
    by (simp add: plan_defs stub_defs const_defs)
  note run = calls_follow_the_plan [of stub disk0]
  from run have whole: "list_all (\<lambda>e. snd e = Succeeded) (libs (snd (main stub disk0))) \<longrightarrow>
      map fst (libs (snd (main stub disk0))) = plan_of stub disk0"
    by (elim conjE)
  from run have staged: "\<forall>os c k r. (Stage_tree os c k, r) \<in> set (libs (snd (main stub disk0))) \<longrightarrow>
      (Resolve_rev ref, Succeeded) \<in> set (libs (snd (main stub disk0))) \<and>
      c = resolved stub disk0"
    by (elim conjE)
  from run have added: "\<forall>r. (Pull remote_name refs, r) \<in> set (libs (snd (main stub disk0))) \<and>
      needs_add stub disk0 \<longrightarrow>
      (Remote_add remote_name remote_url, Succeeded) \<in> set (libs (snd (main stub disk0)))"
    by (elim conjE)
  have resolve: "(Resolve_rev ref, Succeeded) \<in> set (libs (snd (main stub disk0)))"
    and commit: "resolved stub disk0 = ''c0ffee''"
    using staged [rule_format, OF stage] by simp_all
  have add: "(Remote_add remote_name remote_url, Succeeded)
      \<in> set (libs (snd (main stub disk0)))"
    using added [rule_format, of Succeeded] pull unlisted by simp
  have all: "map fst (libs (snd (main stub disk0))) = plan_of stub disk0"
    using whole ok by simp
  show ?thesis
    by (intro conjI) (fact ok stage resolve pull unlisted add commit all plan)+
qed

text \<open>
  C6. A store with no remotes is to be listed as an empty set, and the run is to go on
  and add the remote. For such a store \<open>ostree_repo_remote_list\<close>, which has no error
  parameter, returns \<open>NULL\<close>; \<open>list_remote\<close> turns every \<open>NULL\<close> into the error "Failed
  to list remotes", and \<open>main\<close> leaves before the branch of lines 167 to 174, which would
  have added the remote for a \<open>NULL\<close> list. The remote is not added.
\<close>

theorem store_without_remotes_ends_the_run:
  "repo_remote_list stub empty_disk = None \<and>
   libs (snd (main stub empty_disk)) =
     [(Repo_open repo_path, Succeeded), (Remote_list, Failed)] \<and>
   Err (line ''Failed to list remotes: Failed to list remotes'')
     \<in> set (trace (snd (main stub empty_disk))) \<and>
   status (snd (main stub empty_disk)) = EXIT_FAILURE \<and>
   remotes (world (snd (main stub empty_disk))) = []"
  by (simp add: run_defs stub_defs)

text \<open>
  C7, as the specification states it: for every name and URL the ensure step never
  fails. It fails when the store rejects the addition: here the remote is not listed, the
  library refuses to add it, and the run ends with \<open>EXIT_FAILURE\<close> in \<open>status\<close>.
\<close>

theorem ensure_fails_when_the_store_rejects_the_remote:
  "fst (step_ensure add_fails remote_name remote_url (at_ensure disk0)) = Goto_cleanup \<and>
   status (snd (step_ensure add_fails remote_name remote_url (at_ensure disk0))) = EXIT_FAILURE \<and>
   libs (snd (main add_fails disk0)) =
     [(Repo_open repo_path, Succeeded), (Remote_list, Succeeded),
      (Remote_add remote_name remote_url, Failed)]"
  by (simp add: run_defs stub_defs at_ensure_def listing_def)

text \<open>
  C7, amended: over a store that lists a name exactly once after it has accepted the
  addition of a name it did not list, and that lists the name at most once to begin
  with: when a first run of the ensure step succeeds, exactly one remote with that name
  is listed afterwards; the step has made the addition, once, exactly when the name was
  not listed; a second run succeeds too, makes no call and leaves the store as it is.
  Whenever the name is listed, the step succeeds without a call, whatever URL it is
  given, so the URL on record stays. When the name is not listed and the store rejects
  the addition, the step fails: it prints the library's message and leaves for
  \<open>cleanup\<close> with \<open>EXIT_FAILURE\<close>.
\<close>

theorem ensure_registers_the_remote_once:
  assumes "\<forall>d d'. name \<notin> set (listed_names L d) \<and>
             repo_remote_add L name url d = (Inr (), d') \<longrightarrow>
             count_list (listed_names L d') name = 1"
    and "count_list (listed_names L (world f)) name \<le> 1"
    and "remote_list f = listing L (world f)"
    and "step_ensure L name url f = (Next, f')"
    and "world g = world f'"
    and "remote_list g = listing L (world g)"
  shows "count_list (listed_names L (world f')) name = 1 \<and>
         (\<exists>g'. step_ensure L name url g = (Next, g') \<and> world g' = world g \<and> libs g' = libs g \<and>
               count_list (listed_names L (world g')) name = 1) \<and>
         (if name \<in> set (listed_names L (world f))
          then libs f' = libs f \<and> world f' = world f
          else libs f' = libs f @ [(Remote_add name url, Succeeded)] \<and>
               repo_remote_add L name url (world f) = (Inr (), world f')) \<and>
         (\<forall>h rs other_url. remote_list h = Ref rs \<and> name \<in> set rs \<longrightarrow>
            (\<exists>h'. step_ensure L name other_url h = (Next, h') \<and> world h' = world h \<and>
                   libs h' = libs h)) \<and>
         (\<forall>h message d'. remote_list h = listing L (world h) \<and>
              name \<notin> set (listed_names L (world h)) \<and>
              repo_remote_add L name url (world h) = (Inl message, d') \<longrightarrow>
            fst (step_ensure L name url h) = Goto_cleanup \<and>
            status (snd (step_ensure L name url h)) = EXIT_FAILURE \<and>
            libs (snd (step_ensure L name url h)) = libs h @ [(Remote_add name url, Failed)] \<and>
            last (trace (snd (step_ensure L name url h))) =
              Err (line (''Failed to add remote: '' @ message)))"
proof -
  have first: "if name \<in> set (listed_names L (world f))
      then libs f' = libs f \<and> world f' = world f
      else libs f' = libs f @ [(Remote_add name url, Succeeded)] \<and>
           repo_remote_add L name url (world f) = (Inr (), world f')"
  proof (cases "name \<in> set (listed_names L (world f))")
    case True
    then show ?thesis
      using assms(4) step_ensure_listing [OF assms(3), of name url]
      by (auto simp: emit_def libs_def)
  next
    case False
    then have a: "add_or_fail L name url f = (Next, f')"
      using assms(4) step_ensure_listing [OF assms(3), of name url] by simp
    obtain r d' where r: "repo_remote_add L name url (world f) = (r, d')" by fastforce
    show ?thesis
    proof (cases r)
      case (Inl message)
      then show ?thesis using add_or_fail_rejected(1) [of L name url f message d'] r a by simp
    next
      case (Inr u)
      then show ?thesis
        using add_or_fail_accepted [of L name url f u d'] r a False by simp
    qed
  qed
  have once: "count_list (listed_names L (world f')) name = 1"
  proof (cases "name \<in> set (listed_names L (world f))")
    case True
    then have "count_list (listed_names L (world f)) name \<noteq> 0"
      by (simp add: count_list_0_iff)
    then show ?thesis using first True assms(2) by simp
  next
    case False
    then show ?thesis using first assms(1) [rule_format, of "world f" "world f'"] by simp
  qed
  then have listed: "name \<in> set (listed_names L (world g))"
    using assms(5) by (metis count_list_0_iff zero_neq_one)
  have second: "\<exists>g'. step_ensure L name url g = (Next, g') \<and> world g' = world g \<and>
      libs g' = libs g \<and> count_list (listed_names L (world g')) name = 1"
    using step_ensure_listing [OF assms(6), of name url] listed once assms(5)
    by (simp add: emit_def libs_def)
  have rejected: "fst (step_ensure L name url h) = Goto_cleanup \<and>
      status (snd (step_ensure L name url h)) = EXIT_FAILURE \<and>
      libs (snd (step_ensure L name url h)) = libs h @ [(Remote_add name url, Failed)] \<and>
      last (trace (snd (step_ensure L name url h))) =
        Err (line (''Failed to add remote: '' @ message))"
    if "remote_list h = listing L (world h)" "name \<notin> set (listed_names L (world h))"
      "repo_remote_add L name url (world h) = (Inl message, d')" for h message d'
    using step_ensure_listing [OF that(1), of name url] that(2) add_or_fail_rejected [OF that(3)]
    by simp
  show ?thesis
    using once second first ensure_listed rejected by (intro conjI) blast+
qed


theorem ensure_registers_the_remote_once_witness:
  "count_list (listed_names stub (world (at_ensure disk0))) remote_name \<le> 1 \<and>
   remote_name \<notin> set (listed_names stub (world (at_ensure disk0))) \<and>
   remote_list (at_ensure disk0) = listing stub (world (at_ensure disk0)) \<and>
   fst (step_ensure stub remote_name remote_url (at_ensure disk0)) = Next \<and>
   count_list (listed_names stub
     (world (snd (step_ensure stub remote_name remote_url (at_ensure disk0))))) remote_name = 1 \<and>
   libs (snd (step_ensure stub remote_name remote_url (at_ensure disk0))) =
     [(Remote_add remote_name remote_url, Succeeded)] \<and>
   (\<exists>g'. step_ensure stub remote_name remote_url
            (at_ensure (world (snd (step_ensure stub remote_name remote_url (at_ensure disk0)))))
          = (Next, g') \<and>
        libs g' = [] \<and>
        count_list (listed_names stub (world g')) remote_name = 1)"
proof -
  let ?f = "at_ensure disk0"
  let ?f' = "snd (step_ensure stub remote_name remote_url ?f)"
  let ?g = "at_ensure (world ?f')"
  have once: "count_list (listed_names stub (world ?f)) remote_name \<le> 1"
    by (simp add: at_ensure_def entry_def plan_defs stub_defs const_defs)
  have unlisted: "remote_name \<notin> set (listed_names stub (world ?f))"
    by (simp add: at_ensure_def entry_def plan_defs stub_defs const_defs)
  have listed: "remote_list ?f = listing stub (world ?f)"
    by (simp add: at_ensure_def entry_def)
  have next1: "fst (step_ensure stub remote_name remote_url ?f) = Next"
    by (simp add: run_defs stub_defs at_ensure_def listing_def)
  then have first: "step_ensure stub remote_name remote_url ?f = (Next, ?f')"
    by (metis prod.collapse)
  have same: "world ?g = world ?f'"
    by (simp add: at_ensure_def entry_def)
  have listed2: "remote_list ?g = listing stub (world ?g)"
    by (simp add: at_ensure_def entry_def)
  have start: "libs ?f = []" "libs ?g = []"
    by (simp_all add: at_ensure_def entry_def libs_def)
  note run = ensure_registers_the_remote_once [where L = stub and name = remote_name and
      url = remote_url and f = "?f" and f' = "?f'" and g = "?g",
      OF stub_adds_one_name once listed first same listed2]
  have one: "count_list (listed_names stub (world ?f')) remote_name = 1"
    by (rule conjunct1 [OF run])
  have "\<exists>g'. step_ensure stub remote_name remote_url ?g = (Next, g') \<and> world g' = world ?g \<and>
      libs g' = libs ?g \<and> count_list (listed_names stub (world g')) remote_name = 1"
    by (rule conjunct1 [OF conjunct2 [OF run]])
  then obtain g' where
    g': "step_ensure stub remote_name remote_url ?g = (Next, g')" "libs g' = libs ?g"
      "count_list (listed_names stub (world g')) remote_name = 1"
    by (elim exE conjE) (rule that; assumption)
  have added: "libs ?f' = libs ?f @ [(Remote_add remote_name remote_url, Succeeded)]"
    using conjunct1 [OF conjunct2 [OF conjunct2 [OF run]]] unlisted by simp
  have "libs ?f' = [(Remote_add remote_name remote_url, Succeeded)]" "libs g' = []"
    using added g'(2) start by simp_all
  then show ?thesis using once unlisted listed next1 one g'(1,3)
    by - (intro conjI exI [of _ g'], assumption+)
qed

text \<open>
  C8. Every exit path is to release what it acquired and to touch no pointer it never
  initialised. When the repository cannot be opened, \<open>goto cleanup\<close> jumps over the
  declarations of \<open>remote_list\<close>, \<open>new_commit\<close>, \<open>sysroot\<close> and \<open>origin\<close>, and \<open>cleanup\<close>
  tests \<open>remote_list\<close>, which was never written. When the origin cannot be built, the run
  stops at the diagnostic and the four handles it holds are not released.
\<close>

theorem cleanup_reads_a_pointer_never_written:
  "libs (snd (main open_fails disk0)) = [(Repo_open repo_path, Failed)] \<and>
   remote_list (snd (main open_fails disk0)) = Indeterminate \<and>
   fst (main open_fails disk0) = Undefined (Indeterminate_read V_remote_list) \<and>
   repo (snd (main no_origin disk0)) = Ref () \<and>
   Release V_repo \<notin> set (trace (snd (main no_origin disk0)))"
  by (simp add: run_defs stub_defs)

text \<open>
  C9. The diagnostic of a failing step is to come from that step. \<open>create_origin\<close> takes
  no \<open>GError **\<close>; when it fails, \<open>error\<close> is still \<open>NULL\<close> and \<open>main\<close> reads
  \<open>error->message\<close>.
\<close>

theorem origin_failure_reads_a_null_error:
  "libs (snd (main no_origin disk0)) =
     [(Repo_open repo_path, Succeeded), (Remote_list, Succeeded),
      (Remote_add remote_name remote_url, Succeeded), (Pull remote_name refs, Succeeded),
      (Resolve_rev ref, Succeeded), (Sysroot_new, Succeeded), (Sysroot_load, Succeeded),
      (Origin_new refspec, Failed)] \<and>
   error (snd (main no_origin disk0)) = None \<and>
   fst (main no_origin disk0) = Undefined Null_error_read"
  by (simp add: run_defs stub_defs)

text \<open>
  C10. A run is to end with an exit status that the library's behaviour alone
  determines. The calls of a run do carry the constants of the program, and \<open>main\<close> reads
  no input. But whenever a call before the staging step fails, the run does not reach
  \<open>return status\<close> with its behaviour defined: \<open>cleanup\<close> tests a pointer whose
  declaration the \<open>goto\<close> jumped over (or, after \<open>create_origin\<close>, \<open>main\<close> reads
  \<open>error->message\<close> through a \<open>NULL\<close> pointer), so what the process returns then depends
  on what the stack held, not on the library.
\<close>

theorem failure_before_staging_leaves_the_exit_status_undefined:
  assumes "(c, Failed) \<in> set (libs (snd (main L w)))" and "\<not> boot_op c"
  shows "fst (main L w) = exit_after c \<and> (\<exists>u. fst (main L w) = Undefined u)"
proof -
  obtain with_add commit where
    "follows (transaction_plan with_add commit) (libs (snd (main L w))) (fst (main L w))"
    using main_follows [of L w] by blast
  then show ?thesis using assms
    unfolding transaction_plan_def
    by (cases with_add) (auto simp: follows_Cons boot_op_def)
qed

theorem failure_before_staging_leaves_the_exit_status_undefined_witness:
  "(Pull remote_name refs, Failed) \<in> set (libs (snd (main pull_fails disk0))) \<and>
   \<not> boot_op (Pull remote_name refs) \<and>
   fst (main pull_fails disk0) = Undefined (Indeterminate_read V_new_commit) \<and>
   new_commit (snd (main pull_fails disk0)) = Indeterminate \<and>
   status (snd (main pull_fails disk0)) = EXIT_FAILURE"
proof -
  have failed: "(Pull remote_name refs, Failed) \<in> set (libs (snd (main pull_fails disk0)))"
    by (simp add: run_defs stub_defs)
  have early: "\<not> boot_op (Pull remote_name refs)"
    by (simp add: boot_op_def)
  have "new_commit (snd (main pull_fails disk0)) = Indeterminate"
    "status (snd (main pull_fails disk0)) = EXIT_FAILURE"
    by (simp_all add: run_defs stub_defs)
  then show ?thesis
    using failure_before_staging_leaves_the_exit_status_undefined [OF failed early] failed early
    by simp
qed

end
